theory Spec2Isabelle
  imports Complex_Main "HOL-Library.Monad_Syntax" "HOL-Library.Multiset"
begin

section \<open>Numbers\<close>

text \<open>
  The graph component (Graph.js) computes with JavaScript numbers, the binary64
  floating-point values.  Every finite value is a real.  The arithmetic is given twice.

  In this section it is exact: the shading, the snapping, the placed points and the
  construction are modelled with it.  The non-finite values (NaN and the two infinities)
  are not reals; the only way exact arithmetic can make one from finite operands is a
  division or a remainder by zero, so these two operations return an option and \<open>None\<close>
  stands for "the value is not finite".

  In the next section every operation is rounded to the nearest binary64 value, as the
  machine does.  The coordinate round trip and the gridline loops, whose properties are
  about this rounding, are modelled with it (\<open>toPixel64\<close>, \<open>toData64\<close>,
  \<open>renderGridlines64\<close>).
\<close>

definition js_div :: "real \<Rightarrow> real \<Rightarrow> real option" where
  "js_div a b = (if b = 0 then None else Some (a / b))"

text \<open>\<open>Math.round\<close>: the nearest integer, a tie going towards plus infinity.\<close>

definition js_round :: "real \<Rightarrow> real" where
  "js_round r = of_int \<lfloor>r + 1 / 2\<rfloor>"

text \<open>The \<open>%\<close> operator: the remainder has the sign of the dividend.\<close>

definition js_trunc :: "real \<Rightarrow> int" where
  "js_trunc r = (if 0 \<le> r then \<lfloor>r\<rfloor> else \<lceil>r\<rceil>)"

definition js_rem :: "real \<Rightarrow> real \<Rightarrow> real option" where
  "js_rem a b = (if b = 0 then None else Some (a - b * of_int (js_trunc (a / b))))"

section \<open>Binary64 rounding\<close>

text \<open>
  \<open>fl x\<close> is the result of an operation whose exact result is the real \<open>x\<close>: the
  binary64 value nearest to \<open>x\<close>, a tie going to the value with the even significand.
  The binary64 values around \<open>x\<close> are the integer multiples of \<open>2 powi e\<close>, where \<open>e\<close> is
  the exponent with \<open>2 ^ 52 \<le> \<bar>x\<bar> / 2 powi e < 2 ^ 53\<close>, and \<open>e = - 1074\<close> for the
  subnormal numbers below that range; \<open>ulp_exp\<close> finds it by halving or doubling.  A
  result of magnitude \<open>2 ^ 1024\<close> or more is an infinity, which is \<open>None\<close>.
\<close>

definition round_even :: "real \<Rightarrow> int" where
  "round_even y =
     (let f = \<lfloor>y\<rfloor>; d = y - of_int f in
      if d < 1 / 2 then f else if 1 / 2 < d then f + 1 else if even f then f else f + 1)"

function expo_up :: "real \<Rightarrow> int \<Rightarrow> int" where
  "expo_up y e = (if 2 ^ 53 \<le> y then expo_up (y / 2) (e + 1) else e)"
  by pat_completeness auto
termination
proof (relation "measure (\<lambda>(y, e). nat \<lfloor>y\<rfloor>)")
  show "wf (measure (\<lambda>(y, e). nat \<lfloor>y\<rfloor>))" by simp
next
  fix y :: real and e :: int
  assume a: "2 ^ 53 \<le> y"
  have "y / 2 + 1 \<le> y" using a by simp
  then have "\<lfloor>y / 2 + 1\<rfloor> \<le> \<lfloor>y\<rfloor>" by (rule floor_mono)
  then have "\<lfloor>y / 2\<rfloor> + 1 \<le> \<lfloor>y\<rfloor>" by simp
  moreover have "0 \<le> \<lfloor>y / 2\<rfloor>" using a by simp
  ultimately show "((y / 2, e + 1), (y, e)) \<in> measure (\<lambda>(y, e). nat \<lfloor>y\<rfloor>)"
    using a by simp
qed

function expo_down :: "real \<Rightarrow> int \<Rightarrow> int" where
  "expo_down y e = (if y < 2 ^ 52 \<and> - 1074 < e then expo_down (y * 2) (e - 1) else e)"
  by pat_completeness auto
termination
  by (relation "measure (\<lambda>(y, e). nat (e + 1074))") auto

definition ulp_exp :: "real \<Rightarrow> int" where
  "ulp_exp y = (if 2 ^ 53 \<le> y then expo_up y 0 else expo_down y 0)"

definition fl :: "real \<Rightarrow> real option" where
  "fl x =
     (let e = ulp_exp \<bar>x\<bar>;
          r = of_int (round_even (x / 2 powi e)) * 2 powi e
      in if 2 ^ 1024 \<le> \<bar>r\<bar> then None else Some r)"

declare expo_up.simps [simp del] expo_down.simps [simp del]

text \<open>Division: a zero divisor gives an infinity or NaN.\<close>

definition fl_div :: "real \<Rightarrow> real \<Rightarrow> real option" where
  "fl_div a b = (if b = 0 then None else fl (a / b))"

section \<open>Data model\<close>

record point =
  X :: real
  Y :: real

text \<open>An axis of the graph spec; \<open>snapStep\<close> may be absent.  The label is text only.\<close>

record axis =
  axis_min :: real
  axis_max :: real
  step :: real
  snapStep :: "real option"

record line =
  line_id :: string
  color :: string
  points :: "point list"

record shade =
  shade_fromX :: real
  shade_toX :: real

datatype mode = View | Read | PlotPoints

record graphSpec =
  xAxis :: axis
  yAxis :: axis
  lines :: "line list"
  areaShading :: "shade list option"
  zeroLine :: bool
  interactiveMode :: "mode option"

text \<open>
  The constructor fixes the drawing surface: \<open>width\<close>, \<open>height\<close>, the padding and
  the plot area derived from them.  Nothing assigns these fields afterwards.
\<close>

definition width :: real where "width = 600"
definition height :: real where "height = 400"
definition padding_top :: real where "padding_top = 24"
definition padding_right :: real where "padding_right = 24"
definition padding_bottom :: real where "padding_bottom = 56"
definition padding_left :: real where "padding_left = 64"

definition plotWidth :: real where
  "plotWidth = width - padding_left - padding_right"

definition plotHeight :: real where
  "plotHeight = height - padding_top - padding_bottom"

section \<open>Coordinate conversion\<close>

text \<open>
  \<open>toPixel\<close> divides by the extent of each axis.  The two coordinates are computed
  independently, and callers such as the gridline loop read only one of them, so each
  has its own function.
\<close>

definition toPixel_x :: "graphSpec \<Rightarrow> real \<Rightarrow> real option" where
  "toPixel_x s dataX = do {
     t \<leftarrow> js_div (dataX - axis_min (xAxis s)) (axis_max (xAxis s) - axis_min (xAxis s));
     Some (padding_left + t * plotWidth)
   }"

definition toPixel_y :: "graphSpec \<Rightarrow> real \<Rightarrow> real option" where
  "toPixel_y s dataY = do {
     t \<leftarrow> js_div (axis_max (yAxis s) - dataY) (axis_max (yAxis s) - axis_min (yAxis s));
     Some (padding_top + t * plotHeight)
   }"

definition toPixel :: "graphSpec \<Rightarrow> real \<Rightarrow> real \<Rightarrow> point option" where
  "toPixel s dataX dataY = do {
     x \<leftarrow> toPixel_x s dataX;
     y \<leftarrow> toPixel_y s dataY;
     Some \<lparr>X = x, Y = y\<rparr>
   }"

text \<open>\<open>toData\<close> divides by the plot area only, which is the constant 512 by 320.\<close>

definition toData :: "graphSpec \<Rightarrow> real \<Rightarrow> real \<Rightarrow> point" where
  "toData s svgX svgY =
     \<lparr>X = axis_min (xAxis s)
            + ((svgX - padding_left) / plotWidth) * (axis_max (xAxis s) - axis_min (xAxis s)),
      Y = axis_max (yAxis s)
            - ((svgY - padding_top) / plotHeight) * (axis_max (yAxis s) - axis_min (yAxis s))\<rparr>"

text \<open>
  The same two functions with every operation rounded.  \<open>None\<close> is a result that is not
  finite.  An axis extent that overflows is an infinity, and a finite value divided by an
  infinity is zero.
\<close>

definition toPixel64_x :: "graphSpec \<Rightarrow> real \<Rightarrow> real option" where
  "toPixel64_x s dataX = do {
     n \<leftarrow> fl (dataX - axis_min (xAxis s));
     t \<leftarrow> (case fl (axis_max (xAxis s) - axis_min (xAxis s)) of
            None \<Rightarrow> Some 0
          | Some d \<Rightarrow> fl_div n d);
     m \<leftarrow> fl (t * plotWidth);
     fl (padding_left + m)
   }"

definition toPixel64_y :: "graphSpec \<Rightarrow> real \<Rightarrow> real option" where
  "toPixel64_y s dataY = do {
     n \<leftarrow> fl (axis_max (yAxis s) - dataY);
     t \<leftarrow> (case fl (axis_max (yAxis s) - axis_min (yAxis s)) of
            None \<Rightarrow> Some 0
          | Some d \<Rightarrow> fl_div n d);
     m \<leftarrow> fl (t * plotHeight);
     fl (padding_top + m)
   }"

definition toPixel64 :: "graphSpec \<Rightarrow> real \<Rightarrow> real \<Rightarrow> point option" where
  "toPixel64 s dataX dataY = do {
     x \<leftarrow> toPixel64_x s dataX;
     y \<leftarrow> toPixel64_y s dataY;
     Some \<lparr>X = x, Y = y\<rparr>
   }"

definition toData64_x :: "graphSpec \<Rightarrow> real \<Rightarrow> real option" where
  "toData64_x s svgX = do {
     n \<leftarrow> fl (svgX - padding_left);
     t \<leftarrow> fl_div n plotWidth;
     d \<leftarrow> fl (axis_max (xAxis s) - axis_min (xAxis s));
     m \<leftarrow> fl (t * d);
     fl (axis_min (xAxis s) + m)
   }"

definition toData64_y :: "graphSpec \<Rightarrow> real \<Rightarrow> real option" where
  "toData64_y s svgY = do {
     n \<leftarrow> fl (svgY - padding_top);
     t \<leftarrow> fl_div n plotHeight;
     d \<leftarrow> fl (axis_max (yAxis s) - axis_min (yAxis s));
     m \<leftarrow> fl (t * d);
     fl (axis_max (yAxis s) - m)
   }"

definition toData64 :: "graphSpec \<Rightarrow> real \<Rightarrow> real \<Rightarrow> point option" where
  "toData64 s svgX svgY = do {
     x \<leftarrow> toData64_x s svgX;
     y \<leftarrow> toData64_y s svgY;
     Some \<lparr>X = x, Y = y\<rparr>
   }"

text \<open>\<open>a.snapStep || a.step\<close>: an absent or zero snap step falls back to the step.\<close>

definition snapOf :: "axis \<Rightarrow> real" where
  "snapOf a = (case snapStep a of
                 None \<Rightarrow> step a
               | Some v \<Rightarrow> if v = 0 then step a else v)"

definition snap_coord :: "real \<Rightarrow> real \<Rightarrow> real option" where
  "snap_coord sn d = do { q \<leftarrow> js_div d sn; Some (js_round q * sn) }"

definition snap :: "graphSpec \<Rightarrow> real \<Rightarrow> real \<Rightarrow> point option" where
  "snap s dataX dataY = do {
     x \<leftarrow> snap_coord (snapOf (xAxis s)) dataX;
     y \<leftarrow> snap_coord (snapOf (yAxis s)) dataY;
     Some \<lparr>X = x, Y = y\<rparr>
   }"

text \<open>
  The clamp to the axis range is written inline in \<open>showCrosshair\<close>:
  \<open>Math.max(axis.min, Math.min(axis.max, v))\<close> on each coordinate.
\<close>

definition clamp_coord :: "axis \<Rightarrow> real \<Rightarrow> real" where
  "clamp_coord a v = max (axis_min a) (min (axis_max a) v)"

definition clamp :: "graphSpec \<Rightarrow> point \<Rightarrow> point" where
  "clamp s p = \<lparr>X = clamp_coord (xAxis s) (X p), Y = clamp_coord (yAxis s) (Y p)\<rparr>"

section \<open>Area shading\<close>

text \<open>
  \<open>_getPointsInRange\<close>: one pass over the authored points with the previous point at
  hand from the second iteration on.  A point inside the range is pushed; an interpolated
  point at \<open>fromX\<close> is put in front of the result (\<open>unshift\<close>) and one at \<open>toX\<close> is
  pushed.  The result is sorted by x at the end; the sort is stable.
\<close>

fun rangeLoop ::
  "real \<Rightarrow> real \<Rightarrow> point option \<Rightarrow> point list \<Rightarrow> point list \<Rightarrow> point list option" where
  "rangeLoop fromX toX prev [] result = Some result"
| "rangeLoop fromX toX prev (p # rest) result =
     (let r1 = (if X p \<ge> fromX \<and> X p \<le> toX then result @ [p] else result) in
      case prev of
        None \<Rightarrow> rangeLoop fromX toX (Some p) rest r1
      | Some pv \<Rightarrow> do {
          r2 \<leftarrow> (if X pv < fromX \<and> X p > fromX
                then do {
                  t \<leftarrow> js_div (fromX - X pv) (X p - X pv);
                  Some (\<lparr>X = fromX, Y = Y pv + t * (Y p - Y pv)\<rparr> # r1)
                }
                else Some r1);
          r3 \<leftarrow> (if X pv < toX \<and> X p > toX
                then do {
                  t \<leftarrow> js_div (toX - X pv) (X p - X pv);
                  Some (r2 @ [\<lparr>X = toX, Y = Y pv + t * (Y p - Y pv)\<rparr>])
                }
                else Some r2);
          rangeLoop fromX toX (Some p) rest r3
        })"

definition getPointsInRange :: "point list \<Rightarrow> real \<Rightarrow> real \<Rightarrow> point list option" where
  "getPointsInRange pts fromX toX =
     map_option (sort_key X) (rangeLoop fromX toX None pts [])"

text \<open>
  \<open>_splitByZero\<close>: \<open>current\<close> is the open segment, \<open>segments\<close> the closed ones.  A pair
  crosses zero when one y is non-negative and the next negative, or the reverse.
\<close>

definition crossesZero :: "point \<Rightarrow> point \<Rightarrow> bool" where
  "crossesZero prev cur = ((Y prev \<ge> 0 \<and> Y cur < 0) \<or> (Y prev < 0 \<and> Y cur \<ge> 0))"

fun splitLoop ::
  "point \<Rightarrow> point list \<Rightarrow> point list \<Rightarrow> point list list \<Rightarrow> point list list option" where
  "splitLoop prev [] current segments =
     Some (if length current > 0 then segments @ [current] else segments)"
| "splitLoop prev (cur # rest) current segments =
     (if crossesZero prev cur
      then do {
        t \<leftarrow> js_div (Y prev) (Y prev - Y cur);
        let crossX = X prev + t * (X cur - X prev);
        let crossPoint = \<lparr>X = crossX, Y = 0\<rparr>;
        splitLoop cur rest [crossPoint, cur] (segments @ [current @ [crossPoint]])
      }
      else splitLoop cur rest (current @ [cur]) segments)"

definition splitByZero :: "point list \<Rightarrow> point list list option" where
  "splitByZero pts =
     (case pts of
        p0 # p1 # rest \<Rightarrow> splitLoop p0 (p1 # rest) [p0] []
      | _ \<Rightarrow> Some [pts])"

text \<open>
  \<open>_renderAreaShading\<close>: every shade range is cut out of the first line and split at
  zero; each segment is filled as positive or negative by the sign of its first point.
  The model keeps the segments in data space; the path string built from their pixels
  is drawing only.
\<close>

record region =
  isPositive :: bool
  path :: "point list"

definition shadeRegions :: "point list \<Rightarrow> shade \<Rightarrow> region list option" where
  "shadeRegions pts sh = do {
     relevantPoints \<leftarrow> getPointsInRange pts (shade_fromX sh) (shade_toX sh);
     if length relevantPoints < 2 then Some []
     else do {
       segments \<leftarrow> splitByZero relevantPoints;
       Some (map (\<lambda>seg. \<lparr>isPositive = (case seg of [] \<Rightarrow> False | p # _ \<Rightarrow> Y p \<ge> 0),
                           path = seg\<rparr>) segments)
     }
   }"

fun shadeLoop :: "point list \<Rightarrow> shade list \<Rightarrow> region list option" where
  "shadeLoop pts [] = Some []"
| "shadeLoop pts (sh # shs) = do {
     rs \<leftarrow> shadeRegions pts sh;
     rest \<leftarrow> shadeLoop pts shs;
     Some (rs @ rest)
   }"

definition renderAreaShading :: "graphSpec \<Rightarrow> region list option" where
  "renderAreaShading s =
     (case areaShading s of
        None \<Rightarrow> Some []
      | Some shades \<Rightarrow>
          (case lines s of
             [] \<Rightarrow> Some []
           | line0 # _ \<Rightarrow> shadeLoop (points line0) shades))"

section \<open>Gridlines and axis ticks\<close>

text \<open>
  The loops \<open>for (v = min; v <= max; v += inc)\<close> of \<open>_renderGridlines\<close> and
  \<open>_renderAxes\<close>.  Nothing bounds the number of iterations when \<open>inc\<close> is not positive,
  so the loop is a partial function: \<open>None\<close> means that it never ends.
\<close>

partial_function (option) tickLoop ::
  "(real \<Rightarrow> 'a) \<Rightarrow> real \<Rightarrow> real \<Rightarrow> real \<Rightarrow> 'a list \<Rightarrow> 'a list option" where
  "tickLoop body v hi inc acc =
     (if v \<le> hi then tickLoop body (v + inc) hi inc (acc @ [body v]) else Some acc)"

declare tickLoop.simps [code]

text \<open>
  A gridline: the data value it stands at (kept for reference, the drawing has only the
  pixel), its pixel position and whether it is drawn as a major line.
\<close>

record gridline =
  vertical :: bool
  tick :: real
  pixel :: "real option"
  isMain :: bool

text \<open>\<open>(v - axis.min) % axis.step === 0\<close>; a NaN remainder is not equal to 0.\<close>

definition isMainTick :: "axis \<Rightarrow> real \<Rightarrow> bool" where
  "isMainTick a v = (js_rem (v - axis_min a) (step a) = Some 0)"

definition renderGridlines :: "graphSpec \<Rightarrow> gridline list option" where
  "renderGridlines s = do {
     gx \<leftarrow> tickLoop
            (\<lambda>x. \<lparr>vertical = True, tick = x, pixel = toPixel_x s x,
                   isMain = isMainTick (xAxis s) x\<rparr>)
            (axis_min (xAxis s)) (axis_max (xAxis s)) (snapOf (xAxis s)) [];
     tickLoop
       (\<lambda>y. \<lparr>vertical = False, tick = y, pixel = toPixel_y s y,
              isMain = isMainTick (yAxis s) y\<rparr>)
       (axis_min (yAxis s)) (axis_max (yAxis s)) (snapOf (yAxis s)) gx
   }"

text \<open>The tick marks of \<open>_renderAxes\<close>, one per \<open>step\<close>: the label value and the pixel.\<close>

definition renderAxes ::
  "graphSpec \<Rightarrow> ((real \<times> real option) list \<times> (real \<times> real option) list) option" where
  "renderAxes s = do {
     tx \<leftarrow> tickLoop (\<lambda>x. (x, toPixel_x s x))
            (axis_min (xAxis s)) (axis_max (xAxis s)) (step (xAxis s)) [];
     ty \<leftarrow> tickLoop (\<lambda>y. (y, toPixel_y s y))
            (axis_min (yAxis s)) (axis_max (yAxis s)) (step (yAxis s)) [];
     Some (tx, ty)
   }"





section \<open>The graph instance\<close>

text \<open>
  The observers are callbacks of the caller.  The model records whether each one is
  registered and logs every call with its argument, in order.
\<close>

datatype event = PointsChange "point list" | ValueRead point

record graph =
  spec :: graphSpec
  placedPoints :: "point list"
  crosshairPos :: "point option"
  mode :: mode
  onPointsChange :: bool
  onValueRead :: bool
  emitted :: "event list"

record options =
  opt_mode :: "mode option"
  opt_onPointsChange :: bool
  opt_onValueRead :: bool

text \<open>
  What \<open>render\<close> computes from the spec: the gridlines, the axis ticks and the shaded
  regions.  The remaining layers are straight-line drawing code.  \<open>None\<close> means that
  a tick loop never ends; regions that are not finite are kept as \<open>None\<close> inside.
\<close>

record scene =
  gridlines :: "gridline list"
  axisTicks :: "(real \<times> real option) list \<times> (real \<times> real option) list"
  regions :: "region list option"

definition render :: "graph \<Rightarrow> scene option" where
  "render g = do {
     grid \<leftarrow> renderGridlines (spec g);
     axes \<leftarrow> renderAxes (spec g);
     Some \<lparr>gridlines = grid, axisTicks = axes, regions = renderAreaShading (spec g)\<rparr>
   }"

text \<open>
  The constructor stores its arguments, starts with no placed point and no crosshair,
  takes the mode as \<open>graphSpec.interactiveMode || options.mode || 'view'\<close> and renders.
  It checks nothing.
\<close>

definition constructor :: "graphSpec \<Rightarrow> options \<Rightarrow> graph option" where
  "constructor graphSpec opts =
     (let g = \<lparr>spec = graphSpec,
               placedPoints = [],
               crosshairPos = None,
               mode = (case interactiveMode graphSpec of
                         Some m \<Rightarrow> m
                       | None \<Rightarrow> (case opt_mode opts of Some m \<Rightarrow> m | None \<Rightarrow> View)),
               onPointsChange = opt_onPointsChange opts,
               onValueRead = opt_onValueRead opts,
               emitted = []\<rparr>
      in do { _ \<leftarrow> render g; Some g })"

definition setMode :: "graph \<Rightarrow> mode \<Rightarrow> graph option" where
  "setMode g m = (let g' = g\<lparr>mode := m\<rparr> in do { _ \<leftarrow> render g'; Some g' })"

section \<open>Placed points\<close>

text \<open>\<open>if (this.onPointsChange) this.onPointsChange(this.placedPoints)\<close>\<close>

definition notifyPoints :: "graph \<Rightarrow> graph" where
  "notifyPoints g =
     (if onPointsChange g then g\<lparr>emitted := emitted g @ [PointsChange (placedPoints g)]\<rparr>
      else g)"

definition removePoint :: "graph \<Rightarrow> point \<Rightarrow> graph" where
  "removePoint g pt =
     notifyPoints
       (g\<lparr>placedPoints :=
            filter (\<lambda>p. \<not> (\<bar>X p - X pt\<bar> < 1 / 100 \<and> \<bar>Y p - Y pt\<bar> < 1 / 100))
              (placedPoints g)\<rparr>)"

definition getPlacedPoints :: "graph \<Rightarrow> point list" where
  "getPlacedPoints g = placedPoints g"

definition setPlacedPoints :: "graph \<Rightarrow> point list \<Rightarrow> graph" where
  "setPlacedPoints g pts = g\<lparr>placedPoints := pts\<rparr>"

definition clearPlacedPoints :: "graph \<Rightarrow> graph" where
  "clearPlacedPoints g = notifyPoints (g\<lparr>placedPoints := []\<rparr>)"

text \<open>The undo button of the test runner pops the last placed point of its graph.\<close>

definition undo :: "graph \<Rightarrow> graph" where
  "undo g =
     (if length (placedPoints g) > 0
      then notifyPoints (g\<lparr>placedPoints := butlast (placedPoints g)\<rparr>)
      else g)"

section \<open>Interactive layer\<close>

text \<open>
  The handlers of the overlay, installed by \<open>_renderInteractiveLayer\<close> unless the mode
  is \<open>view\<close>.  An event carries the pointer position in SVG coordinates, as
  \<open>getSVGPoint\<close> returns it.  \<open>showCrosshair\<close> yields \<open>None\<close> when the snapped
  position is not finite (a snap step of zero).  Moving the crosshair lines and filling
  the tooltip is drawing only; what the later handlers read is \<open>crosshairPos\<close>.
\<close>

definition showCrosshair :: "graph \<Rightarrow> real \<Rightarrow> real \<Rightarrow> graph option" where
  "showCrosshair g svgX svgY =
     (let data = toData (spec g) svgX svgY in
      do {
        snapped \<leftarrow> snap (spec g) (X data) (Y data);
        Some (g\<lparr>crosshairPos := Some (clamp (spec g) snapped)\<rparr>)
      })"

definition hideCrosshair :: "graph \<Rightarrow> graph" where
  "hideCrosshair g = g\<lparr>crosshairPos := None\<rparr>"

definition overlay_click :: "graph \<Rightarrow> graph" where
  "overlay_click g =
     (case crosshairPos g of
        None \<Rightarrow> g
      | Some c \<Rightarrow>
          if mode g = PlotPoints then
            (case find (\<lambda>p. X p = X c \<and> Y p = Y c) (placedPoints g) of
               Some existing \<Rightarrow> removePoint g existing
             | None \<Rightarrow> notifyPoints (g\<lparr>placedPoints := placedPoints g @ [c]\<rparr>))
          else if mode g = Read then
            (if onValueRead g then g\<lparr>emitted := emitted g @ [ValueRead c]\<rparr> else g)
          else g)"

definition overlay_touchend :: "graph \<Rightarrow> graph" where
  "overlay_touchend g =
     hideCrosshair
       (case crosshairPos g of
          None \<Rightarrow> g
        | Some c \<Rightarrow>
            if mode g = PlotPoints then
              (case find (\<lambda>p. X p = X c \<and> Y p = Y c) (placedPoints g) of
                 None \<Rightarrow> notifyPoints (g\<lparr>placedPoints := placedPoints g @ [c]\<rparr>)
               | Some existing \<Rightarrow> g)
            else if mode g = Read then
              (if onValueRead g then g\<lparr>emitted := emitted g @ [ValueRead c]\<rparr> else g)
            else g)"

text \<open>
  Everything that can happen to an instance after construction.  The overlay exists only
  outside \<open>view\<close> mode; the cross of a placed point exists in every mode and removes
  its point when clicked.
\<close>

datatype input =
    MouseMove real real
  | MouseLeave
  | Click
  | TouchMove real real
  | TouchEnd
  | PointClick nat
  | Undo
  | SetPlacedPoints "point list"
  | ClearPlacedPoints
  | SetMode mode

fun handle :: "graph \<Rightarrow> input \<Rightarrow> graph option" where
  "handle g (MouseMove sx sy) = (if mode g = View then Some g else showCrosshair g sx sy)"
| "handle g MouseLeave = Some (if mode g = View then g else hideCrosshair g)"
| "handle g Click = Some (if mode g = View then g else overlay_click g)"
| "handle g (TouchMove sx sy) = (if mode g = View then Some g else showCrosshair g sx sy)"
| "handle g TouchEnd = Some (if mode g = View then g else overlay_touchend g)"
| "handle g (PointClick i) =
     Some (if i < length (placedPoints g) then removePoint g (placedPoints g ! i) else g)"
| "handle g Undo = Some (undo g)"
| "handle g (SetPlacedPoints pts) = Some (setPlacedPoints g pts)"
| "handle g ClearPlacedPoints = Some (clearPlacedPoints g)"
| "handle g (SetMode m) = setMode g m"

fun run :: "graph \<Rightarrow> input list \<Rightarrow> graph option" where
  "run g [] = Some g"
| "run g (i # is) = (case handle g i of None \<Rightarrow> None | Some g' \<Rightarrow> run g' is)"

section \<open>Notions used in the properties\<close>

text \<open>
  The graph of the design notes: time from 0 to 50 in steps of 10 snapping to 5,
  velocity from 0 to 30 in steps of 5.
\<close>

definition exampleSpec :: graphSpec where
  "exampleSpec =
     \<lparr>xAxis = \<lparr>axis_min = 0, axis_max = 50, step = 10, snapStep = Some 5\<rparr>,
      yAxis = \<lparr>axis_min = 0, axis_max = 30, step = 5, snapStep = Some 5\<rparr>,
      lines = [], areaShading = None, zeroLine = False, interactiveMode = Some PlotPoints\<rparr>"

text \<open>The same graph with an x snap step of 4, which does not divide the maximum 50.\<close>

definition snap4Spec :: graphSpec where
  "snap4Spec =
     \<lparr>xAxis = \<lparr>axis_min = 0, axis_max = 50, step = 10, snapStep = Some 4\<rparr>,
      yAxis = \<lparr>axis_min = 0, axis_max = 30, step = 5, snapStep = Some 5\<rparr>,
      lines = [], areaShading = None, zeroLine = False, interactiveMode = Some PlotPoints\<rparr>"

text \<open>A value lies on the snap grid of an axis when snapping leaves it where it is.\<close>

definition onSnapGrid :: "axis \<Rightarrow> real \<Rightarrow> bool" where
  "onSnapGrid a v = (snap_coord (snapOf a) v = Some v)"

definition boundsOnSnapGrid :: "graphSpec \<Rightarrow> bool" where
  "boundsOnSnapGrid s =
     (onSnapGrid (xAxis s) (axis_min (xAxis s)) \<and> onSnapGrid (xAxis s) (axis_max (xAxis s)) \<and>
      onSnapGrid (yAxis s) (axis_min (yAxis s)) \<and> onSnapGrid (yAxis s) (axis_max (yAxis s)))"

subsection \<open>Zero-crossing split\<close>

definition nonNegative :: "point list \<Rightarrow> bool" where
  "nonNegative seg = list_all (\<lambda>p. Y p \<ge> 0) seg"

definition nonPositive :: "point list \<Rightarrow> bool" where
  "nonPositive seg = list_all (\<lambda>p. Y p \<le> 0) seg"

text \<open>Where the straight segment from \<open>p\<close> to \<open>q\<close> meets \<open>y = 0\<close>.\<close>

definition crossPoint :: "point \<Rightarrow> point \<Rightarrow> point" where
  "crossPoint p q = \<lparr>X = X p + (Y p / (Y p - Y q)) * (X q - X p), Y = 0\<rparr>"

text \<open>The point list with the crossing point put between every pair that crosses zero.\<close>

fun insertCrossings :: "point list \<Rightarrow> point list" where
  "insertCrossings (p # q # rest) =
     (if crossesZero p q then p # crossPoint p q # insertCrossings (q # rest)
      else p # insertCrossings (q # rest))"
| "insertCrossings ps = ps"

fun countCrossings :: "point list \<Rightarrow> nat" where
  "countCrossings (p # q # rest) =
     (if crossesZero p q then 1 else 0) + countCrossings (q # rest)"
| "countCrossings ps = 0"

text \<open>
  Segments laid end to end, the first point of every later segment dropped; and the
  segments of a list are \<open>chained\<close> when each one ends on the x axis in the point the
  next one starts with.
\<close>

definition joinSegments :: "point list list \<Rightarrow> point list" where
  "joinSegments segs = (case segs of [] \<Rightarrow> [] | s # ss \<Rightarrow> s @ concat (map tl ss))"

fun chained :: "point list list \<Rightarrow> bool" where
  "chained (s # t # rest) =
     (s \<noteq> [] \<and> t \<noteq> [] \<and> last s = hd t \<and> Y (last s) = 0 \<and> chained (t # rest))"
| "chained segs = True"

text \<open>The segments the loop of \<open>splitLoop\<close> adds, written without the accumulator.\<close>

fun segsFrom :: "point \<Rightarrow> point list \<Rightarrow> point list \<Rightarrow> point list list" where
  "segsFrom prev [] current = [current]"
| "segsFrom prev (cur # rest) current =
     (if crossesZero prev cur
      then (current @ [crossPoint prev cur]) # segsFrom cur rest [crossPoint prev cur, cur]
      else segsFrom cur rest (current @ [cur]))"

subsection \<open>Range extraction\<close>

definition inRange :: "real \<Rightarrow> real \<Rightarrow> point \<Rightarrow> bool" where
  "inRange lo hi p = (lo \<le> X p \<and> X p \<le> hi)"

text \<open>The point at \<open>x = b\<close> on the straight segment from \<open>pv\<close> to \<open>p\<close>.\<close>

definition interpolate :: "point \<Rightarrow> point \<Rightarrow> real \<Rightarrow> point" where
  "interpolate pv p b = \<lparr>X = b, Y = Y pv + ((b - X pv) / (X p - X pv)) * (Y p - Y pv)\<rparr>"

text \<open>
  A pair straddles \<open>b\<close> when \<open>b\<close> lies strictly between its two x values; it rises
  across \<open>b\<close> when moreover the first x is the smaller one.
\<close>

definition straddles :: "real \<Rightarrow> point \<Rightarrow> point \<Rightarrow> bool" where
  "straddles b pv p = ((X pv < b \<and> b < X p) \<or> (X p < b \<and> b < X pv))"

definition risesAcross :: "real \<Rightarrow> point \<Rightarrow> point \<Rightarrow> bool" where
  "risesAcross b pv p = (X pv < b \<and> b < X p)"

text \<open>The interpolated points of all adjacent pairs that rise across a boundary.\<close>

fun boundaryPoints :: "real \<Rightarrow> real \<Rightarrow> point list \<Rightarrow> point list" where
  "boundaryPoints lo hi (pv # p # rest) =
     (if risesAcross lo pv p then [interpolate pv p lo] else [])
     @ (if risesAcross hi pv p then [interpolate pv p hi] else [])
     @ boundaryPoints lo hi (p # rest)"
| "boundaryPoints lo hi ps = []"

subsection \<open>Tick loops\<close>

text \<open>
  How often a loop \<open>for (v = lo; v <= hi; v += inc)\<close> with a positive increment runs,
  and the values it visits.
\<close>

definition tickCount :: "real \<Rightarrow> real \<Rightarrow> real \<Rightarrow> nat" where
  "tickCount v hi inc = (if v \<le> hi then nat \<lfloor>(hi - v) / inc\<rfloor> + 1 else 0)"

definition ticks :: "real \<Rightarrow> real \<Rightarrow> real \<Rightarrow> real list" where
  "ticks v hi inc = map (\<lambda>i. v + real i * inc) [0..<tickCount v hi inc]"


text \<open>
  The tick loops of an axis end when the axis is empty (they are never entered) or when
  both increments, the step and the snap step in force, are positive.
\<close>

definition loopsEnd :: "axis \<Rightarrow> bool" where
  "loopsEnd a = (axis_max a < axis_min a \<or> (0 < step a \<and> 0 < snapOf a))"

text \<open>An x axis with \<open>max < min\<close> and a y axis with \<open>max = min\<close> and a snap step of 0.\<close>

definition reversedSpec :: graphSpec where
  "reversedSpec =
     \<lparr>xAxis = \<lparr>axis_min = 50, axis_max = 0, step = 10, snapStep = Some 5\<rparr>,
      yAxis = \<lparr>axis_min = 30, axis_max = 30, step = 5, snapStep = Some 0\<rparr>,
      lines = [], areaShading = None, zeroLine = False, interactiveMode = None\<rparr>"

subsection \<open>Placed points\<close>

text \<open>The test of \<open>_removePoint\<close>: within 0.01 of \<open>pt\<close> on both coordinates.\<close>

definition near :: "point \<Rightarrow> point \<Rightarrow> bool" where
  "near pt p = (\<bar>X p - X pt\<bar> < 1 / 100 \<and> \<bar>Y p - Y pt\<bar> < 1 / 100)"


text \<open>A point is an output of snap then clamp.\<close>

definition isPlacedPoint :: "graphSpec \<Rightarrow> point \<Rightarrow> bool" where
  "isPlacedPoint s p = (\<exists>dataX dataY q. snap s dataX dataY = Some q \<and> p = clamp s q)"

definition withinAxes :: "graphSpec \<Rightarrow> point \<Rightarrow> bool" where
  "withinAxes s p =
     (axis_min (xAxis s) \<le> X p \<and> X p \<le> axis_max (xAxis s)
      \<and> axis_min (yAxis s) \<le> Y p \<and> Y p \<le> axis_max (yAxis s))"

text \<open>
  The outputs of snap then clamp on one axis, spelled out: the minimum, the maximum and
  the values of the snap grid between them (only the minimum when \<open>max < min\<close>).
\<close>

definition placedCoord :: "axis \<Rightarrow> real \<Rightarrow> bool" where
  "placedCoord a v =
     (if axis_max a < axis_min a then v = axis_min a
      else v = axis_min a \<or> v = axis_max a
           \<or> (axis_min a \<le> v \<and> v \<le> axis_max a \<and> onSnapGrid a v))"

text \<open>What the interaction keeps true: the store and the crosshair hold such points.\<close>

definition storeInv :: "graphSpec \<Rightarrow> graph \<Rightarrow> bool" where
  "storeInv s g =
     (spec g = s \<and> list_all (isPlacedPoint s) (placedPoints g)
      \<and> (case crosshairPos g of None \<Rightarrow> True | Some c \<Rightarrow> isPlacedPoint s c))"

text \<open>Every bulk restore among the inputs supplies outputs of snap then clamp.\<close>

definition restoresPlaced :: "graphSpec \<Rightarrow> input list \<Rightarrow> bool" where
  "restoresPlaced s ins =
     list_all
       (\<lambda>i. case i of SetPlacedPoints pts \<Rightarrow> list_all (isPlacedPoint s) pts | _ \<Rightarrow> True) ins"

text \<open>The life of an instance: construction, then the inputs in order.\<close>

definition session :: "graphSpec \<Rightarrow> options \<Rightarrow> input list \<Rightarrow> graph option" where
  "session s opts ins = (case constructor s opts of None \<Rightarrow> None | Some g \<Rightarrow> run g ins)"

definition observed :: options where
  "observed = \<lparr>opt_mode = None, opt_onPointsChange = True, opt_onValueRead = True\<rparr>"

definition stateOf :: "graphSpec \<Rightarrow> mode \<Rightarrow> point list \<Rightarrow> point option \<Rightarrow> graph" where
  "stateOf s m pts c =
     \<lparr>spec = s, placedPoints = pts, crosshairPos = c, mode = m,
      onPointsChange = True, onValueRead = True, emitted = []\<rparr>"

text \<open>The example graph with an x snap step of 0.005.\<close>

definition fineSpec :: graphSpec where
  "fineSpec =
     \<lparr>xAxis = \<lparr>axis_min = 0, axis_max = 50, step = 10, snapStep = Some (1 / 200)\<rparr>,
      yAxis = \<lparr>axis_min = 0, axis_max = 30, step = 5, snapStep = Some 5\<rparr>,
      lines = [], areaShading = None, zeroLine = False, interactiveMode = Some PlotPoints\<rparr>"

subsection \<open>Binary64 values\<close>

text \<open>
  \<open>eta64\<close> is half the distance between two subnormal numbers, the largest error of a
  rounding below the normal range.  The binary64 values all lie on the grid of the
  subnormal numbers, the integer multiples of \<open>2 powi - 1074\<close>.  A real is a binary64
  value when rounding leaves it where it is.
\<close>

definition eta64 :: real where "eta64 = 1 / 2 ^ 1075"

definition onGrid :: "real \<Rightarrow> bool" where
  "onGrid x = (\<exists>n::int. x = of_int n / 2 ^ 1074)"

definition isDouble :: "real \<Rightarrow> bool" where
  "isDouble x = (fl x = Some x)"

text \<open>An axis whose bounds are binary64 values; an axis with \<open>- M \<le> min < max \<le> M\<close>.\<close>

definition doubleAxis :: "axis \<Rightarrow> bool" where
  "doubleAxis a = (isDouble (axis_min a) \<and> isDouble (axis_max a))"

definition axisWithin :: "real \<Rightarrow> axis \<Rightarrow> bool" where
  "axisWithin M a = (- M \<le> axis_min a \<and> axis_min a < axis_max a \<and> axis_max a \<le> M)"

text \<open>A data point taken to its pixel and back.\<close>

definition roundTrip64 :: "graphSpec \<Rightarrow> point \<Rightarrow> point option" where
  "roundTrip64 s p = do { q \<leftarrow> toPixel64 s (X p) (Y p); toData64 s (X q) (Y q) }"

text \<open>A graph whose x axis runs from 0 to \<open>10 ^ 10\<close>.\<close>

definition wideSpec :: graphSpec where
  "wideSpec =
     \<lparr>xAxis = \<lparr>axis_min = 0, axis_max = 10000000000, step = 1000000000, snapStep = None\<rparr>,
      yAxis = \<lparr>axis_min = 0, axis_max = 30, step = 5, snapStep = Some 5\<rparr>,
      lines = [], areaShading = None, zeroLine = False, interactiveMode = None\<rparr>"




text \<open>What is drawn of a gridline: its direction, its data value, its weight.\<close>


section \<open>Properties\<close>

subsection \<open>Rounding to binary64\<close>

lemma pow2_pos [simp]: "0 < (2::real) powi e"
  by (simp add: zero_less_power_int)

lemma pow2_step: "(2::real) powi (e + 1) = 2 * 2 powi e"
  by (simp add: power_int_add)

lemma pow2_step': "(2::real) powi e = 2 * 2 powi (e - 1)"
  using pow2_step [of "e - 1"] by simp

lemma expo_down_post:
  assumes "0 \<le> y" and "- 1074 \<le> e"
  shows "- 1074 \<le> expo_down y e \<and> expo_down y e \<le> e
       \<and> (y < 2 ^ 53 \<longrightarrow> y * 2 powi (e - expo_down y e) < 2 ^ 53)
       \<and> (- 1074 < expo_down y e \<longrightarrow> 2 ^ 52 \<le> y * 2 powi (e - expo_down y e))"
  using assms
proof (induction y e rule: expo_down.induct)
  case (1 y e)
  show ?case
  proof (cases "y < 2 ^ 52 \<and> - 1074 < e")
    case True
    let ?e' = "expo_down (y * 2) (e - 1)"
    have eq: "expo_down y e = ?e'" using True by (subst expo_down.simps) simp
    have ih: "- 1074 \<le> ?e' \<and> ?e' \<le> e - 1
       \<and> (y * 2 < 2 ^ 53 \<longrightarrow> y * 2 * 2 powi (e - 1 - ?e') < 2 ^ 53)
       \<and> (- 1074 < ?e' \<longrightarrow> 2 ^ 52 \<le> y * 2 * 2 powi (e - 1 - ?e'))"
      using "1.IH" [OF True] "1.prems" True by simp
    have p: "(2::real) powi (e - ?e') = 2 * 2 powi (e - 1 - ?e')"
      using pow2_step' [of "e - ?e'"] by (simp add: algebra_simps)
    have y2: "y * 2 < 2 ^ 53" using True by simp
    show ?thesis using ih y2 by (simp add: eq p algebra_simps)
  next
    case False
    then have eq: "expo_down y e = e" by (subst expo_down.simps) auto
    show ?thesis using False "1.prems" by (auto simp: eq)
  qed
qed

lemma expo_up_post:
  assumes "0 \<le> y"
  shows "e \<le> expo_up y e
       \<and> y * 2 powi (e - expo_up y e) < 2 ^ 53
       \<and> (2 ^ 52 \<le> y \<longrightarrow> 2 ^ 52 \<le> y * 2 powi (e - expo_up y e))"
  using assms
proof (induction y e rule: expo_up.induct)
  case (1 y e)
  show ?case
  proof (cases "2 ^ 53 \<le> y")
    case True
    let ?e' = "expo_up (y / 2) (e + 1)"
    have eq: "expo_up y e = ?e'" using True by (subst expo_up.simps) simp
    have ih: "e + 1 \<le> ?e'
       \<and> y / 2 * 2 powi (e + 1 - ?e') < 2 ^ 53
       \<and> (2 ^ 52 \<le> y / 2 \<longrightarrow> 2 ^ 52 \<le> y / 2 * 2 powi (e + 1 - ?e'))"
      using "1.IH" [OF True] "1.prems" by simp
    have p: "(2::real) powi (e + 1 - ?e') = 2 * 2 powi (e - ?e')"
      using pow2_step [of "e - ?e'"] by (simp add: algebra_simps)
    have y2: "2 ^ 52 \<le> y / 2" using True by simp
    show ?thesis using ih y2 by (simp add: eq p)
  next
    case False
    then have eq: "expo_up y e = e" by (subst expo_up.simps) simp
    show ?thesis using False by (simp add: eq)
  qed
qed

lemma ulp_exp_post:
  assumes "0 \<le> y"
  shows "- 1074 \<le> ulp_exp y \<and> y * 2 powi (- ulp_exp y) < 2 ^ 53
       \<and> (- 1074 < ulp_exp y \<longrightarrow> 2 ^ 52 \<le> y * 2 powi (- ulp_exp y))"
proof (cases "2 ^ 53 \<le> y")
  case True
  then have "2 ^ 52 \<le> y" by simp
  then show ?thesis using True expo_up_post [OF assms, of 0] by (simp add: ulp_exp_def)
next
  case False
  then show ?thesis using expo_down_post [OF assms, of 0] by (simp add: ulp_exp_def)
qed

lemma round_even_near: "\<bar>of_int (round_even y) - y\<bar> \<le> 1 / 2"
proof -
  have "of_int \<lfloor>y\<rfloor> \<le> y" and "y < of_int \<lfloor>y\<rfloor> + 1" by linarith+
  then show ?thesis by (auto simp: round_even_def Let_def)
qed

lemma round_even_of_int [simp]: "round_even (of_int k) = k"
  by (simp add: round_even_def)

lemma eta64_pos: "0 < eta64" by (simp add: eta64_def)

lemma eta64_small: "eta64 \<le> 1 / 2 ^ 200"
  unfolding eta64_def by (intro divide_left_mono power_increasing) simp_all

lemma pow2_m1074: "(2::real) powi (- 1074) = 1 / 2 ^ 1074"
  by (simp add: power_int_minus field_simps)

lemma fl_cases:
  fixes x :: real
  defines "e \<equiv> ulp_exp \<bar>x\<bar>"
  defines "r \<equiv> of_int (round_even (x / 2 powi e)) * 2 powi e"
  shows "fl x = (if 2 ^ 1024 \<le> \<bar>r\<bar> then None else Some r)"
    and "\<bar>r - x\<bar> \<le> 2 powi e / 2"
    and "- 1074 \<le> e"
    and "\<bar>x\<bar> < 2 ^ 53 * 2 powi e"
    and "- 1074 < e \<Longrightarrow> 2 ^ 52 * 2 powi e \<le> \<bar>x\<bar>"
proof -
  show "fl x = (if 2 ^ 1024 \<le> \<bar>r\<bar> then None else Some r)"
    by (simp add: fl_def e_def r_def Let_def)
  have "\<bar>of_int (round_even (x / 2 powi e)) - x / 2 powi e\<bar> \<le> 1 / 2"
    by (rule round_even_near)
  then have "\<bar>of_int (round_even (x / 2 powi e)) - x / 2 powi e\<bar> * 2 powi e \<le> 1 / 2 * 2 powi e"
    by (rule mult_right_mono) simp
  moreover have "\<bar>of_int (round_even (x / 2 powi e)) - x / 2 powi e\<bar> * 2 powi e = \<bar>r - x\<bar>"
  proof -
    have "(of_int (round_even (x / 2 powi e)) - x / 2 powi e) * 2 powi e = r - x"
      by (simp add: r_def algebra_simps)
    then have "\<bar>r - x\<bar> = \<bar>(of_int (round_even (x / 2 powi e)) - x / 2 powi e) * 2 powi e\<bar>"
      by (simp only:)
    then show ?thesis by (simp add: abs_mult)
  qed
  ultimately show "\<bar>r - x\<bar> \<le> 2 powi e / 2" by simp
  have post: "- 1074 \<le> e \<and> \<bar>x\<bar> * 2 powi (- e) < 2 ^ 53
       \<and> (- 1074 < e \<longrightarrow> 2 ^ 52 \<le> \<bar>x\<bar> * 2 powi (- e))"
    unfolding e_def by (rule ulp_exp_post) simp
  show "- 1074 \<le> e" using post by simp
  have inv: "(2::real) powi (- e) = 1 / 2 powi e" by (simp add: power_int_minus field_simps)
  show "\<bar>x\<bar> < 2 ^ 53 * 2 powi e" using post by (simp add: inv field_simps)
  show "2 ^ 52 * 2 powi e \<le> \<bar>x\<bar>" if "- 1074 < e" using post that by (simp add: inv field_simps)
qed

lemma fl_result_onGrid:
  assumes "fl x = Some r"
  shows "onGrid r"
proof -
  let ?e = "ulp_exp \<bar>x\<bar>"
  let ?n = "round_even (x / 2 powi ?e)"
  have r: "r = of_int ?n * 2 powi ?e"
    using assms fl_cases(1) [of x] by (simp split: if_splits)
  have e: "- 1074 \<le> ?e" by (rule fl_cases(3))
  have "(2::real) powi ((?e + 1074) + (- 1074)) = 2 powi (?e + 1074) * 2 powi (- 1074)"
    by (rule power_int_add) simp
  moreover have "?e + 1074 + (- 1074) = ?e" by simp
  ultimately have s: "(2::real) powi ?e = 2 powi (?e + 1074) * 2 powi (- 1074)"
    by (simp only:)
  have n: "(2::real) powi (?e + 1074) = 2 ^ nat (?e + 1074)"
    using e by (simp add: power_int_def)
  have "r = of_int ?n * (2 ^ nat (?e + 1074) * 2 powi (- 1074))"
    using r s n by (simp only:)
  then have "r = of_int (?n * 2 ^ nat (?e + 1074)) / 2 ^ 1074"
    by (simp only: pow2_m1074 of_int_mult of_int_power of_int_numeral) (simp add: field_simps)
  then show ?thesis unfolding onGrid_def by blast
qed

lemma isDouble_onGrid: "isDouble x \<Longrightarrow> onGrid x"
  unfolding isDouble_def by (rule fl_result_onGrid)

lemma onGrid_add: "onGrid x \<Longrightarrow> onGrid y \<Longrightarrow> onGrid (x + y)"
proof -
  assume "onGrid x" "onGrid y"
  then obtain m n :: int where "x = of_int m / 2 ^ 1074" "y = of_int n / 2 ^ 1074"
    by (auto simp: onGrid_def)
  then have "x + y = of_int (m + n) / 2 ^ 1074" by (simp add: add_divide_distrib)
  then show ?thesis unfolding onGrid_def by blast
qed

lemma onGrid_minus: "onGrid x \<Longrightarrow> onGrid (- x)"
proof -
  assume "onGrid x"
  then obtain m :: int where "x = of_int m / 2 ^ 1074" by (auto simp: onGrid_def)
  then have "- x = of_int (- m) / 2 ^ 1074" by simp
  then show ?thesis unfolding onGrid_def by blast
qed

lemma onGrid_diff: "onGrid x \<Longrightarrow> onGrid y \<Longrightarrow> onGrid (x - y)"
  using onGrid_add [of x "- y"] onGrid_minus [of y] by simp

text \<open>The error of one rounding: relative, or at most \<open>eta64\<close> below the normal range.\<close>

lemma fl_error:
  assumes "\<bar>x\<bar> \<le> 2 ^ 1023"
  shows "\<exists>r. fl x = Some r \<and> \<bar>r - x\<bar> \<le> \<bar>x\<bar> / 2 ^ 53 + eta64 \<and> onGrid r"
proof -
  let ?e = "ulp_exp \<bar>x\<bar>"
  let ?r = "of_int (round_even (x / 2 powi ?e)) * 2 powi ?e"
  have err: "\<bar>?r - x\<bar> \<le> 2 powi ?e / 2" by (rule fl_cases(2))
  have bound: "2 powi ?e / 2 \<le> \<bar>x\<bar> / 2 ^ 53 + eta64"
  proof (cases "- 1074 < ?e")
    case True
    then have "2 ^ 52 * 2 powi ?e \<le> \<bar>x\<bar>" by (rule fl_cases(5))
    then have "2 powi ?e / 2 \<le> \<bar>x\<bar> / 2 ^ 53" by simp
    then show ?thesis using eta64_pos by linarith
  next
    case False
    then have "?e = - 1074" using fl_cases(3) [of x] by simp
    then have "2 powi ?e / 2 = eta64" by (simp add: pow2_m1074 eta64_def)
    then show ?thesis by simp
  qed
  have "\<bar>?r\<bar> \<le> \<bar>x\<bar> + \<bar>?r - x\<bar>" by simp
  also have "\<dots> \<le> \<bar>x\<bar> + (\<bar>x\<bar> / 2 ^ 53 + eta64)" using err bound by simp
  also have "\<dots> < 2 ^ 1024"
  proof -
    have "\<bar>x\<bar> / 2 ^ 53 \<le> 2 ^ 1023 / 2 ^ 53" using assms by (simp add: divide_right_mono)
    moreover have "(2::real) ^ 1023 / 2 ^ 53 \<le> 2 ^ 1023 / 4" by (simp add: field_simps)
    moreover have "eta64 \<le> 1" using eta64_small by (simp add: field_simps) 
    moreover have "(1::real) \<le> 2 ^ 1023 / 4" by simp
    moreover have "(2::real) ^ 1024 = 2 * 2 ^ 1023" by simp
    ultimately show ?thesis using assms by linarith
  qed
  finally have "\<not> (2::real) ^ 1024 \<le> \<bar>?r\<bar>" by simp
  then have "fl x = Some ?r" using fl_cases(1) [of x] by simp
  then show ?thesis using err bound fl_result_onGrid [of x ?r] by auto
qed

text \<open>A value on the grid of the subnormals is rounded with a relative error only.\<close>

lemma fl_error_onGrid:
  assumes "onGrid x" and "\<bar>x\<bar> \<le> 2 ^ 1023"
  shows "\<exists>r. fl x = Some r \<and> \<bar>r - x\<bar> \<le> \<bar>x\<bar> / 2 ^ 53 \<and> onGrid r"
proof (cases "- 1074 < ulp_exp \<bar>x\<bar>")
  case True
  let ?e = "ulp_exp \<bar>x\<bar>"
  from fl_error [OF assms(2)] obtain r where r: "fl x = Some r" "onGrid r" by blast
  then have req: "r = of_int (round_even (x / 2 powi ?e)) * 2 powi ?e"
    using fl_cases(1) [of x] by (simp split: if_splits)
  have "\<bar>r - x\<bar> \<le> 2 powi ?e / 2" unfolding req by (rule fl_cases(2))
  moreover have "2 ^ 52 * 2 powi ?e \<le> \<bar>x\<bar>" using True by (rule fl_cases(5))
  ultimately have "\<bar>r - x\<bar> \<le> \<bar>x\<bar> / 2 ^ 53" by simp
  then show ?thesis using r by blast
next
  case False
  then have e: "ulp_exp \<bar>x\<bar> = - 1074" using fl_cases(3) [of x] by simp
  from assms(1) obtain n :: int where n: "x = of_int n / 2 ^ 1074" by (auto simp: onGrid_def)
  then have "x / 2 powi (- 1074) = of_int n" by (simp add: pow2_m1074)
  then have "of_int (round_even (x / 2 powi (- 1074))) * 2 powi (- 1074) = x"
    using n by (simp add: pow2_m1074)
  moreover from fl_error [OF assms(2)] obtain r where r: "fl x = Some r" "onGrid r" by blast
  ultimately have "r = x" using fl_cases(1) [of x] e by (simp split: if_splits)
  then show ?thesis using r by simp
qed

lemma pow2_mono: "a \<le> b \<Longrightarrow> (2::real) powi a \<le> 2 powi b"
  by (rule power_int_increasing) simp_all

lemma ulp_exp_unique:
  assumes y: "0 \<le> y" and e: "- 1074 \<le> e" and up: "y * 2 powi (- e) < 2 ^ 53"
    and lo: "- 1074 < e \<longrightarrow> 2 ^ 52 \<le> y * 2 powi (- e)"
  shows "ulp_exp y = e"
proof -
  define e' where "e' = ulp_exp y"
  have post: "- 1074 \<le> e'" "y * 2 powi (- e') < 2 ^ 53"
    "- 1074 < e' \<longrightarrow> 2 ^ 52 \<le> y * 2 powi (- e')"
    using ulp_exp_post [OF y] by (simp_all add: e'_def)
  have "\<not> e' < e"
  proof
    assume l: "e' < e"
    then have "2 ^ 52 \<le> y * 2 powi (- e)" using lo post(1) by simp
    moreover have "2 * 2 powi (- e) \<le> (2::real) powi (- e')"
    proof -
      have "(2::real) powi (- e + 1) \<le> 2 powi (- e')" using l by (intro pow2_mono) simp
      then show ?thesis by (simp only: pow2_step)
    qed
    then have "y * (2 * 2 powi (- e)) \<le> y * 2 powi (- e')" using y by (rule mult_left_mono)
    ultimately have "2 * 2 ^ 52 \<le> y * 2 powi (- e')" by (simp add: algebra_simps)
    then show False using post(2) by simp
  qed
  moreover have "\<not> e < e'"
  proof
    assume l: "e < e'"
    then have "2 ^ 52 \<le> y * 2 powi (- e')" using post(3) e by simp
    moreover have "2 * 2 powi (- e') \<le> (2::real) powi (- e)"
    proof -
      have "(2::real) powi (- e' + 1) \<le> 2 powi (- e)" using l by (intro pow2_mono) simp
      then show ?thesis by (simp only: pow2_step)
    qed
    then have "y * (2 * 2 powi (- e')) \<le> y * 2 powi (- e)" using y by (rule mult_left_mono)
    ultimately have "2 * 2 ^ 52 \<le> y * 2 powi (- e)" by (simp add: algebra_simps)
    then show False using up by simp
  qed
  ultimately show ?thesis by (simp add: e'_def)
qed

lemma round_even_eqI:
  assumes "\<bar>y - of_int n\<bar> < 1 / 2 \<or> (\<bar>y - of_int n\<bar> = 1 / 2 \<and> even n)"
  shows "round_even y = n"
proof (cases "of_int n \<le> y")
  case True
  then have d: "y - of_int n \<le> 1 / 2" using assms by auto
  then have f: "\<lfloor>y\<rfloor> = n" using True by (simp add: floor_eq_iff)
  show ?thesis using assms True by (auto simp: round_even_def f)
next
  case False
  then have d: "of_int n - y \<le> 1 / 2" using assms by auto
  then have f: "\<lfloor>y\<rfloor> = n - 1" using False by (simp add: floor_eq_iff)
  have od: "\<bar>y - of_int n\<bar> = 1 / 2 \<Longrightarrow> odd (n - 1)" using assms by auto
  show ?thesis using assms False od by (auto simp: round_even_def f)
qed

text \<open>
  The value of \<open>fl\<close> at \<open>x\<close>, from the exponent \<open>- k\<close> of the unit in the last place
  and the integer \<open>n\<close> nearest to \<open>x * 2 ^ k\<close>.
\<close>

lemma fl_evalI:
  assumes lo: "2 ^ 52 \<le> \<bar>x\<bar> * 2 ^ k" and up: "\<bar>x\<bar> * 2 ^ k < 2 ^ 53" and k: "k \<le> 1074"
    and n: "\<bar>x * 2 ^ k - of_int n\<bar> < 1 / 2 \<or> (\<bar>x * 2 ^ k - of_int n\<bar> = 1 / 2 \<and> even n)"
  shows "fl x = Some (of_int n / 2 ^ k)"
proof -
  have p: "(2::real) powi (- (- int k)) = 2 ^ k" by simp
  have e: "ulp_exp \<bar>x\<bar> = - int k"
    by (rule ulp_exp_unique) (use lo up k in \<open>simp_all only: p\<close>, simp_all)
  have q: "(2::real) powi (- int k) = 1 / 2 ^ k" by (simp add: power_int_minus field_simps)
  have d: "x / 2 powi (- int k) = x * 2 ^ k" by (simp add: q)
  have r: "round_even (x * 2 ^ k) = n" using n by (rule round_even_eqI)
  have val: "real_of_int (round_even (x / 2 powi (- int k))) * 2 powi (- int k)
              = real_of_int n / 2 ^ k"
    unfolding d r by (simp add: q)
  have "\<bar>of_int n\<bar> \<le> \<bar>x * 2 ^ k\<bar> + 1 / 2" using n by linarith
  also have "\<bar>x * 2 ^ k\<bar> = \<bar>x\<bar> * 2 ^ k" by (simp add: abs_mult)
  finally have nb: "\<bar>real_of_int n\<bar> < 2 ^ 54" using up by simp
  have "\<bar>real_of_int n / 2 ^ k\<bar> = \<bar>real_of_int n\<bar> / 2 ^ k" by simp
  also have "\<dots> \<le> \<bar>real_of_int n\<bar> / 1" by (intro divide_left_mono) simp_all
  finally have "\<bar>real_of_int n / 2 ^ k\<bar> < 2 ^ 54" using nb by simp
  moreover have "(2::real) ^ 54 \<le> 2 ^ 1024" by (rule power_increasing) simp_all
  ultimately have "\<not> 2 ^ 1024 \<le> \<bar>real_of_int n / 2 ^ k\<bar>" by linarith
  then show ?thesis unfolding fl_def Let_def e val by (simp only: if_False)
qed

lemma ulp_exp_small: "0 \<le> y \<Longrightarrow> y < 2 ^ 53 \<Longrightarrow> ulp_exp y \<le> 0"
  using expo_down_post [of y 0] by (simp add: ulp_exp_def)

lemma fl_of_int:
  assumes "\<bar>n\<bar> < 2 ^ 53"
  shows "fl (of_int n) = Some (of_int n)"
proof -
  define e where "e = ulp_exp \<bar>real_of_int n\<bar>"
  have "\<bar>real_of_int n\<bar> = of_int \<bar>n\<bar>" by simp
  also have "\<dots> < of_int (2 ^ 53)" using assms by (simp only: of_int_less_iff)
  finally have b: "\<bar>real_of_int n\<bar> < 2 ^ 53" by simp
  then have e0: "e \<le> 0" unfolding e_def by (intro ulp_exp_small) simp_all
  define k where "k = nat (- e)"
  have ek: "e = - int k" using e0 by (simp add: k_def)
  have q: "(2::real) powi e = 1 / 2 ^ k" by (simp add: ek power_int_minus field_simps)
  have "real_of_int n / 2 powi e = of_int (n * 2 ^ k)" by (simp add: q)
  then have "round_even (real_of_int n / 2 powi e) = n * 2 ^ k" by (simp only: round_even_of_int)
  then have r: "of_int (round_even (real_of_int n / 2 powi e)) * 2 powi e = real_of_int n"
    by (simp add: q)
  have "(2::real) ^ 53 \<le> 2 ^ 1024" by (rule power_increasing) simp_all
  then have "\<not> 2 ^ 1024 \<le> \<bar>real_of_int n\<bar>" using b by linarith
  then show ?thesis using r unfolding fl_def Let_def e_def [symmetric] by (simp only: if_False)
qed

lemma fl_numeral [simp]: "numeral w < (2::int) ^ 53 \<Longrightarrow> fl (numeral w) = Some (numeral w)"
  using fl_of_int [of "numeral w"] by simp

lemma fl_0 [simp]: "fl 0 = Some 0"
  using fl_of_int [of 0] by simp

lemma fl_1 [simp]: "fl 1 = Some 1"
  using fl_of_int [of 1] by simp

lemma isDouble_numeral [simp]: "numeral w < (2::int) ^ 53 \<Longrightarrow> isDouble (numeral w)"
  by (simp add: isDouble_def)

lemma isDouble_0 [simp]: "isDouble 0" by (simp add: isDouble_def)

lemma eta64_le_u: "eta64 \<le> 1 / 2 ^ 60"
proof -
  have "(1::real) / 2 ^ 200 \<le> 1 / 2 ^ 60"
    by (intro divide_left_mono power_increasing) simp_all
  then show ?thesis using eta64_small by linarith
qed

lemma bound_step:
  fixes e a b c :: real
  assumes "e \<le> a / 2 ^ 53 + c" and "a \<le> b"
  shows "e \<le> b / 2 ^ 53 + c"
proof -
  have "a / 2 ^ 53 \<le> b / 2 ^ 53" using assms(2) by (rule divide_right_mono) simp
  then show ?thesis using assms(1) by linarith
qed

lemma frac_roundtrip:
  fixes off len d1 d2 :: real
  assumes d1: "0 \<le> d1" and d2: "0 < d2" and le: "d1 \<le> d2 + 4 * d2 / 2 ^ 53"
    and d2b: "d2 \<le> 2 ^ 30"
    and off: "0 \<le> off" "off \<le> 64" and len: "320 \<le> len" "len \<le> 512"
  shows "\<exists>t m x n r v. fl (d1 / d2) = Some t \<and> fl (t * len) = Some m \<and> fl (off + m) = Some x
           \<and> fl (x - off) = Some n \<and> fl (n / len) = Some r \<and> fl (r * d2) = Some v
           \<and> \<bar>v - d1\<bar> \<le> 21 * d2 / 2 ^ 53 + eta64 \<and> onGrid v"
proof -
  note e0 = eta64_pos and e1 = eta64_le_u
  have pw: "(2::real) ^ 53 = 9007199254740992" "(2::real) ^ 60 = 1152921504606846976"
    "(2::real) ^ 30 = 1073741824" "(2::real) ^ 11 = 2048" by simp_all
  define x0 where "x0 = d1 / d2"
  have x0: "0 \<le> x0" using d1 d2 by (simp add: x0_def)
  have x0d: "x0 * d2 = d1" using d2 by (simp add: x0_def)
  have "d1 \<le> (1 + 4 / 2 ^ 53) * d2" using le by (simp add: algebra_simps)
  then have x0u: "x0 \<le> 1 + 4 / 2 ^ 53" using d2 unfolding x0_def by (simp only: pos_divide_le_eq)
  have "(2::real) ^ 1 \<le> 2 ^ 1023" by (rule power_increasing) simp_all
  then have big: "(2::real) \<le> 2 ^ 1023" by (simp only: power_one_right)
  have big30: "(2::real) ^ 31 \<le> 2 ^ 1023" by (rule power_increasing) simp_all
  have big11: "(2::real) ^ 11 \<le> 2 ^ 1023" by (rule power_increasing) simp_all
  \<comment> \<open>the quotient\<close>
  have "\<bar>x0\<bar> \<le> 2" using x0 x0u unfolding pw by linarith
  then have "\<bar>x0\<bar> \<le> 2 ^ 1023" by (rule order_trans [OF _ big])
  from fl_error [OF this] obtain t where t: "fl x0 = Some t"
    and te: "\<bar>t - x0\<bar> \<le> \<bar>x0\<bar> / 2 ^ 53 + eta64" by blast
  have te': "\<bar>t - x0\<bar> \<le> 2 / 2 ^ 53" using te x0 x0u e1 unfolding pw by linarith
  have tb: "\<bar>t\<bar> \<le> 2" using te' x0 x0u unfolding pw by linarith
  \<comment> \<open>times the length\<close>
  have tl: "\<bar>t * len\<bar> = \<bar>t\<bar> * len" using len by (simp add: abs_mult)
  have tl2: "\<bar>t\<bar> * len \<le> 2 * len" using tb len by (intro mult_right_mono) simp_all
  have "\<bar>t * len\<bar> \<le> 2 ^ 11" using tl tl2 len unfolding pw by linarith
  then have "\<bar>t * len\<bar> \<le> 2 ^ 1023" by (rule order_trans [OF _ big11])
  from fl_error [OF this] obtain m where m: "fl (t * len) = Some m"
    and me: "\<bar>m - t * len\<bar> \<le> \<bar>t * len\<bar> / 2 ^ 53 + eta64" by blast
  have me': "\<bar>m - t * len\<bar> \<le> 2 * len / 2 ^ 53 + eta64" using me tl tl2 unfolding pw by linarith
  have "t * len - x0 * len = (t - x0) * len" by (simp add: algebra_simps)
  then have "\<bar>t * len - x0 * len\<bar> = \<bar>t - x0\<bar> * len"
    using len by (simp add: abs_mult)
  moreover have "\<bar>t - x0\<bar> * len \<le> 2 / 2 ^ 53 * len" using te' len by (intro mult_right_mono) simp_all
  ultimately have tx: "\<bar>t * len - x0 * len\<bar> \<le> 2 * len / 2 ^ 53" by simp
  have mx: "\<bar>m - x0 * len\<bar> \<le> 4 * len / 2 ^ 53 + eta64" using me' tx unfolding pw by linarith
  have x0l: "0 \<le> x0 * len" using x0 len by simp
  have "x0 * len \<le> (1 + 4 / 2 ^ 53) * len" using x0u len by (intro mult_right_mono) simp_all
  then have x0l': "x0 * len \<le> len + 4 * len / 2 ^ 53" by (simp add: algebra_simps)
  have mb: "\<bar>m\<bar> \<le> 3 * len" using mx x0l x0l' len e1 unfolding pw by linarith
  \<comment> \<open>plus the offset\<close>
  have om: "\<bar>off + m\<bar> \<le> 1600" using mb off len unfolding pw by linarith
  then have "\<bar>off + m\<bar> \<le> 2 ^ 11" by simp
  then have omb: "\<bar>off + m\<bar> \<le> 2 ^ 1023" by (rule order_trans [OF _ big11])
  from fl_error [OF omb] obtain x where x: "fl (off + m) = Some x"
    and xe: "\<bar>x - (off + m)\<bar> \<le> \<bar>off + m\<bar> / 2 ^ 53 + eta64" by blast
  have xe': "\<bar>x - (off + m)\<bar> \<le> 1600 / 2 ^ 53 + eta64" by (rule bound_step [OF xe om])
  \<comment> \<open>minus the offset\<close>
  have xo: "\<bar>x - off\<bar> \<le> 1600" using xe' mb len e1 unfolding pw by linarith
  then have "\<bar>x - off\<bar> \<le> 2 ^ 11" by simp
  then have "\<bar>x - off\<bar> \<le> 2 ^ 1023" by (rule order_trans [OF _ big11])
  from fl_error [OF this] obtain n where n: "fl (x - off) = Some n"
    and ne: "\<bar>n - (x - off)\<bar> \<le> \<bar>x - off\<bar> / 2 ^ 53 + eta64" by blast
  have ne': "\<bar>n - (x - off)\<bar> \<le> 1600 / 2 ^ 53 + eta64" by (rule bound_step [OF ne xo])
  have nm: "\<bar>n - m\<bar> \<le> 3200 / 2 ^ 53 + 2 * eta64" using ne' xe' unfolding pw by linarith
  have nx: "\<bar>n - x0 * len\<bar> \<le> 3200 / 2 ^ 53 + 4 * len / 2 ^ 53 + 3 * eta64"
    using nm mx unfolding pw by linarith
  have nb: "\<bar>n\<bar> \<le> 4 * len" using nm mb len e1 unfolding pw by linarith
  \<comment> \<open>over the length\<close>
  have "\<bar>n / len\<bar> = \<bar>n\<bar> / len" using len by (simp add: abs_divide)
  moreover have "\<bar>n\<bar> / len \<le> 4" using nb len by (simp only: pos_divide_le_eq) 
  ultimately have nl: "\<bar>n / len\<bar> \<le> 4" by (simp only:)
  then have "\<bar>n / len\<bar> \<le> 2 ^ 11" by simp
  then have "\<bar>n / len\<bar> \<le> 2 ^ 1023" by (rule order_trans [OF _ big11])
  from fl_error [OF this] obtain r where r: "fl (n / len) = Some r"
    and re: "\<bar>r - n / len\<bar> \<le> \<bar>n / len\<bar> / 2 ^ 53 + eta64" by blast
  have re': "\<bar>r - n / len\<bar> \<le> 4 / 2 ^ 53 + eta64" by (rule bound_step [OF re nl])
  have el: "eta64 \<le> eta64 * len" using e0 len by simp
  have ex: "(14 / 2 ^ 53 + 3 * eta64) * len = 14 * len / 2 ^ 53 + 3 * (eta64 * len)"
    by (simp add: algebra_simps)
  have nx': "\<bar>n - x0 * len\<bar> \<le> (14 / 2 ^ 53 + 3 * eta64) * len"
    unfolding ex using nx el len unfolding pw by linarith
  have "n / len - x0 = (n - x0 * len) / len" using len by (simp add: field_simps)
  then have "\<bar>n / len - x0\<bar> = \<bar>n - x0 * len\<bar> / len"
    using len by (simp add: abs_divide)
  moreover have "\<bar>n - x0 * len\<bar> / len \<le> 14 / 2 ^ 53 + 3 * eta64"
    using nx' len by (simp only: pos_divide_le_eq)
  ultimately have nlx: "\<bar>n / len - x0\<bar> \<le> 14 / 2 ^ 53 + 3 * eta64" by (simp only:)
  have rx: "\<bar>r - x0\<bar> \<le> 19 / 2 ^ 53" using re' nlx e1 unfolding pw by linarith
  have rb: "\<bar>r\<bar> \<le> 2" using rx x0 x0u unfolding pw by linarith
  \<comment> \<open>times the extent\<close>
  have rd: "\<bar>r * d2\<bar> = \<bar>r\<bar> * d2" using d2 by (simp add: abs_mult)
  have rd2: "\<bar>r\<bar> * d2 \<le> 2 * d2" using rb d2 by (intro mult_right_mono) simp_all
  have "\<bar>r * d2\<bar> \<le> 2 * 2 ^ 30" using rd rd2 d2b unfolding pw by linarith
  then have "\<bar>r * d2\<bar> \<le> 2 ^ 31" by simp
  then have "\<bar>r * d2\<bar> \<le> 2 ^ 1023" by (rule order_trans [OF _ big30])
  from fl_error [OF this] obtain v where v: "fl (r * d2) = Some v"
    and ve: "\<bar>v - r * d2\<bar> \<le> \<bar>r * d2\<bar> / 2 ^ 53 + eta64" and vg: "onGrid v" by blast
  have ve': "\<bar>v - r * d2\<bar> \<le> 2 * d2 / 2 ^ 53 + eta64" using ve rd rd2 unfolding pw by linarith
  have "r * d2 - d1 = (r - x0) * d2" using x0d by (simp add: algebra_simps)
  then have "\<bar>r * d2 - d1\<bar> = \<bar>r - x0\<bar> * d2" using d2 by (simp add: abs_mult)
  moreover have "\<bar>r - x0\<bar> * d2 \<le> 19 / 2 ^ 53 * d2" using rx d2 by (intro mult_right_mono) simp_all
  ultimately have "\<bar>r * d2 - d1\<bar> \<le> 19 * d2 / 2 ^ 53" by simp
  then have "\<bar>v - d1\<bar> \<le> 21 * d2 / 2 ^ 53 + eta64" using ve' unfolding pw by linarith
  then show ?thesis using t m x n r v vg unfolding x0_def by blast
qed

subsection \<open>Coordinate mapping\<close>

lemma plot_area [simp]: "plotWidth = 512" "plotHeight = 320"
  by (simp_all add: plotWidth_def plotHeight_def width_def height_def padding_left_def
      padding_right_def padding_top_def padding_bottom_def)

text \<open>In exact arithmetic \<open>toData\<close> undoes \<open>toPixel\<close>.\<close>

lemma toData_toPixel:
  assumes "axis_min (xAxis s) \<noteq> axis_max (xAxis s)"
    and "axis_min (yAxis s) \<noteq> axis_max (yAxis s)"
  shows "\<exists>q. toPixel s dx dy = Some q \<and> toData s (X q) (Y q) = \<lparr>X = dx, Y = dy\<rparr>"
  using assms
  by (simp add: toPixel_def toPixel_x_def toPixel_y_def js_div_def toData_def field_simps)

lemma extent_chain:
  fixes D1 D off len :: real
  assumes D1: "0 \<le> D1" "D1 \<le> D" and g: "onGrid D1" "onGrid D" and D: "0 < D" "D \<le> 2 * 10 ^ 8"
    and off: "0 \<le> off" "off \<le> 64" and len: "320 \<le> len" "len \<le> 512"
  shows "\<exists>d1 d2 t m x n r v. fl D1 = Some d1 \<and> fl D = Some d2 \<and> d2 \<noteq> 0
           \<and> fl (d1 / d2) = Some t \<and> fl (t * len) = Some m \<and> fl (off + m) = Some x
           \<and> fl (x - off) = Some n \<and> fl (n / len) = Some r \<and> fl (r * d2) = Some v
           \<and> \<bar>v - D1\<bar> \<le> 23 * D / 2 ^ 53 + eta64 \<and> onGrid v"
proof -
  have pw: "(2::real) ^ 53 = 9007199254740992" "(2::real) ^ 30 = 1073741824"
    "(10::real) ^ 8 = 100000000" by simp_all
  have big30: "(2::real) ^ 30 \<le> 2 ^ 1023" by (rule power_increasing) simp_all
  have "\<bar>D\<bar> \<le> 2 ^ 30" using D unfolding pw by linarith
  then have Db: "\<bar>D\<bar> \<le> 2 ^ 1023" by (rule order_trans [OF _ big30])
  have "\<bar>D1\<bar> \<le> 2 ^ 30" using D D1 unfolding pw by linarith
  then have D1b: "\<bar>D1\<bar> \<le> 2 ^ 1023" by (rule order_trans [OF _ big30])
  from fl_error_onGrid [OF g(1) D1b] obtain d1 where d1: "fl D1 = Some d1"
    and d1e: "\<bar>d1 - D1\<bar> \<le> \<bar>D1\<bar> / 2 ^ 53" by blast
  from fl_error_onGrid [OF g(2) Db] obtain d2 where d2: "fl D = Some d2"
    and d2e: "\<bar>d2 - D\<bar> \<le> \<bar>D\<bar> / 2 ^ 53" by blast
  have a1: "\<bar>D1\<bar> = D1" and a2: "\<bar>D\<bar> = D" using D1 D by simp_all
  note d1e' = d1e [unfolded a1] and d2e' = d2e [unfolded a2]
  have d1p: "0 \<le> d1" using d1e' D1 unfolding pw by linarith
  have d2p: "0 < d2" using d2e' D unfolding pw by linarith
  have le: "d1 \<le> d2 + 4 * d2 / 2 ^ 53" using d1e' d2e' D1 D unfolding pw by linarith
  have d2b: "d2 \<le> 2 ^ 30" using d2e' D unfolding pw by linarith
  from frac_roundtrip [OF d1p d2p le d2b off len] obtain t m x n r v
    where c: "fl (d1 / d2) = Some t" "fl (t * len) = Some m" "fl (off + m) = Some x"
      "fl (x - off) = Some n" "fl (n / len) = Some r" "fl (r * d2) = Some v"
      and ve: "\<bar>v - d1\<bar> \<le> 21 * d2 / 2 ^ 53 + eta64" and vg: "onGrid v" by blast
  have "\<bar>v - D1\<bar> \<le> 23 * D / 2 ^ 53 + eta64"
    using ve d1e' d2e' D1 D unfolding pw by linarith
  then show ?thesis using d1 d2 d2p c vg by blast
qed


lemma axis_roundtrip:
  fixes a b p D1 off len :: real
  assumes a: "onGrid a" and b: "onGrid b" and p: "onGrid p"
    and ab: "a < b" and M: "- (10 ^ 8) \<le> a" "b \<le> 10 ^ 8" and pa: "a \<le> p" "p \<le> b"
    and off: "0 \<le> off" "off \<le> 64" and len: "320 \<le> len" "len \<le> 512"
    and D1: "(D1 = p - a \<and> w = (\<lambda>v. a + v)) \<or> (D1 = b - p \<and> w = (\<lambda>v. b - v))"
  shows "\<exists>d1 d2 t m x n r v out. fl D1 = Some d1 \<and> fl (b - a) = Some d2 \<and> d2 \<noteq> 0
           \<and> fl (d1 / d2) = Some t \<and> fl (t * len) = Some m \<and> fl (off + m) = Some x
           \<and> fl (x - off) = Some n \<and> fl (n / len) = Some r \<and> fl (r * d2) = Some v
           \<and> fl (w v) = Some out \<and> \<bar>out - p\<bar> \<le> 1 / 10 ^ 6"
proof -
  have pw: "(2::real) ^ 53 = 9007199254740992" "(2::real) ^ 30 = 1073741824"
    "(10::real) ^ 8 = 100000000" "(10::real) ^ 6 = 1000000"
    "(2::real) ^ 60 = 1152921504606846976" by simp_all
  note e0 = eta64_pos and e1 = eta64_le_u
  have big30: "(2::real) ^ 30 \<le> 2 ^ 1023" by (rule power_increasing) simp_all
  have g1: "onGrid D1" using D1 a b p by (auto intro: onGrid_diff)
  have g2: "onGrid (b - a)" using a b by (rule onGrid_diff [rotated])
  have D1b: "0 \<le> D1" "D1 \<le> b - a" using D1 pa by auto
  have D: "0 < b - a" "b - a \<le> 2 * 10 ^ 8" using ab M by simp_all
  from extent_chain [OF D1b g1 g2 D off len] obtain d1 d2 t m x n r v
    where c: "fl D1 = Some d1" "fl (b - a) = Some d2" "d2 \<noteq> 0"
      "fl (d1 / d2) = Some t" "fl (t * len) = Some m" "fl (off + m) = Some x"
      "fl (x - off) = Some n" "fl (n / len) = Some r" "fl (r * d2) = Some v"
      and ve: "\<bar>v - D1\<bar> \<le> 23 * (b - a) / 2 ^ 53 + eta64" and vg: "onGrid v" by blast
  have wg: "onGrid (w v)" using D1 a b vg by (auto intro: onGrid_add onGrid_diff)
  have wp: "\<bar>w v - p\<bar> = \<bar>v - D1\<bar>" using D1 by auto
  have ve': "\<bar>w v - p\<bar> \<le> 23 * (b - a) / 2 ^ 53 + eta64" using ve wp by simp
  have pb: "\<bar>p\<bar> \<le> 10 ^ 8" using pa M by argo
  have wb: "\<bar>w v\<bar> \<le> 10 ^ 8 + 1" using ve' pb D e1 unfolding pw by argo
  then have "\<bar>w v\<bar> \<le> 2 ^ 30" unfolding pw by argo
  then have "\<bar>w v\<bar> \<le> 2 ^ 1023" by (rule order_trans [OF _ big30])
  from fl_error_onGrid [OF wg this] obtain out where out: "fl (w v) = Some out"
    and oe: "\<bar>out - w v\<bar> \<le> \<bar>w v\<bar> / 2 ^ 53" by blast
  have "\<bar>out - w v\<bar> \<le> (10 ^ 8 + 1) / 2 ^ 53 + 0" by (rule bound_step [of _ "\<bar>w v\<bar>"]) (use oe wb in simp_all)
  then have "\<bar>out - p\<bar> \<le> 1 / 10 ^ 6" using ve' D e1 unfolding pw by argo
  then show ?thesis using c out by blast
qed

lemma toData64_toPixel64_x:
  assumes "doubleAxis (xAxis s)" and "axisWithin (10 ^ 8) (xAxis s)" and "isDouble px"
    and "axis_min (xAxis s) \<le> px" and "px \<le> axis_max (xAxis s)"
  shows "\<exists>q r. toPixel64_x s px = Some q \<and> toData64_x s q = Some r \<and> \<bar>r - px\<bar> \<le> 1 / 10 ^ 6"
proof -
  let ?a = "axis_min (xAxis s)" and ?b = "axis_max (xAxis s)"
  have g: "onGrid ?a" "onGrid ?b" "onGrid px"
    using assms(1,3) by (simp_all add: doubleAxis_def isDouble_onGrid)
  have M: "?a < ?b" "- (10 ^ 8) \<le> ?a" "?b \<le> 10 ^ 8" using assms(2) by (simp_all add: axisWithin_def)
  from axis_roundtrip [OF g M assms(4,5), of 64 512 "px - ?a" "\<lambda>v. ?a + v"]
  obtain d1 d2 t m x n r v out where c: "fl (px - ?a) = Some d1" "fl (?b - ?a) = Some d2" "d2 \<noteq> 0"
      "fl (d1 / d2) = Some t" "fl (t * 512) = Some m" "fl (64 + m) = Some x"
      "fl (x - 64) = Some n" "fl (n / 512) = Some r" "fl (r * d2) = Some v"
      "fl (?a + v) = Some out" and e: "\<bar>out - px\<bar> \<le> 1 / 10 ^ 6" by auto
  have "toPixel64_x s px = Some x"
    unfolding toPixel64_x_def fl_div_def plot_area padding_left_def using c by simp
  moreover have "toData64_x s x = Some out"
    unfolding toData64_x_def fl_div_def plot_area padding_left_def using c by simp
  ultimately show ?thesis using e by blast
qed

lemma toData64_toPixel64_y:
  assumes "doubleAxis (yAxis s)" and "axisWithin (10 ^ 8) (yAxis s)" and "isDouble py"
    and "axis_min (yAxis s) \<le> py" and "py \<le> axis_max (yAxis s)"
  shows "\<exists>q r. toPixel64_y s py = Some q \<and> toData64_y s q = Some r \<and> \<bar>r - py\<bar> \<le> 1 / 10 ^ 6"
proof -
  let ?a = "axis_min (yAxis s)" and ?b = "axis_max (yAxis s)"
  have g: "onGrid ?a" "onGrid ?b" "onGrid py"
    using assms(1,3) by (simp_all add: doubleAxis_def isDouble_onGrid)
  have M: "?a < ?b" "- (10 ^ 8) \<le> ?a" "?b \<le> 10 ^ 8" using assms(2) by (simp_all add: axisWithin_def)
  from axis_roundtrip [OF g M assms(4,5), of 24 320 "?b - py" "\<lambda>v. ?b - v"]
  obtain d1 d2 t m x n r v out where c: "fl (?b - py) = Some d1" "fl (?b - ?a) = Some d2" "d2 \<noteq> 0"
      "fl (d1 / d2) = Some t" "fl (t * 320) = Some m" "fl (24 + m) = Some x"
      "fl (x - 24) = Some n" "fl (n / 320) = Some r" "fl (r * d2) = Some v"
      "fl (?b - v) = Some out" and e: "\<bar>out - py\<bar> \<le> 1 / 10 ^ 6" by auto
  have "toPixel64_y s py = Some x"
    unfolding toPixel64_y_def fl_div_def plot_area padding_top_def using c by simp
  moreover have "toData64_y s x = Some out"
    unfolding toData64_y_def fl_div_def plot_area padding_top_def using c by simp
  ultimately show ?thesis using e by blast
qed

text \<open>
  Claim C1, as amended.  In binary64 arithmetic, on axes whose bounds are binary64 values
  with \<open>- 10 ^ 8 \<le> min < max \<le> 10 ^ 8\<close>, every data point \<open>p\<close> with binary64
  coordinates within the axis bounds has a pixel, \<open>toData\<close> of that pixel is finite, and
  it equals \<open>p\<close> within \<open>10 ^ - 6\<close> on each coordinate.
\<close>

theorem roundtrip64_bounded_axes:
  assumes "doubleAxis (xAxis s)" and "doubleAxis (yAxis s)"
    and "axisWithin (10 ^ 8) (xAxis s)" and "axisWithin (10 ^ 8) (yAxis s)"
    and "isDouble (X p)" and "isDouble (Y p)" and "withinAxes s p"
  shows "\<exists>r. roundTrip64 s p = Some r
            \<and> \<bar>X r - X p\<bar> \<le> 1 / 10 ^ 6 \<and> \<bar>Y r - Y p\<bar> \<le> 1 / 10 ^ 6"
proof -
  from assms(7) have w: "axis_min (xAxis s) \<le> X p" "X p \<le> axis_max (xAxis s)"
    "axis_min (yAxis s) \<le> Y p" "Y p \<le> axis_max (yAxis s)" by (simp_all add: withinAxes_def)
  from toData64_toPixel64_x [OF assms(1,3,5) w(1,2)] obtain qx rx
    where x: "toPixel64_x s (X p) = Some qx" "toData64_x s qx = Some rx"
      "\<bar>rx - X p\<bar> \<le> 1 / 10 ^ 6" by blast
  from toData64_toPixel64_y [OF assms(2,4,6) w(3,4)] obtain qy ry
    where y: "toPixel64_y s (Y p) = Some qy" "toData64_y s qy = Some ry"
      "\<bar>ry - Y p\<bar> \<le> 1 / 10 ^ 6" by blast
  have "roundTrip64 s p = Some \<lparr>X = rx, Y = ry\<rparr>"
    by (simp add: roundTrip64_def toPixel64_def toData64_def x y)
  then show ?thesis using x(3) y(3) by simp
qed

theorem roundtrip64_bounded_axes_witness:
  "doubleAxis (xAxis exampleSpec) \<and> doubleAxis (yAxis exampleSpec)
   \<and> axisWithin (10 ^ 8) (xAxis exampleSpec) \<and> axisWithin (10 ^ 8) (yAxis exampleSpec)
   \<and> isDouble 20 \<and> isDouble 10 \<and> withinAxes exampleSpec \<lparr>X = 20, Y = 10\<rparr>
   \<and> (\<exists>r. roundTrip64 exampleSpec \<lparr>X = 20, Y = 10\<rparr> = Some r
          \<and> \<bar>X r - 20\<bar> \<le> 1 / 10 ^ 6 \<and> \<bar>Y r - 10\<bar> \<le> 1 / 10 ^ 6)"
  using roundtrip64_bounded_axes [of exampleSpec "\<lparr>X = 20, Y = 10\<rparr>"]
  by (simp add: exampleSpec_def doubleAxis_def axisWithin_def withinAxes_def)

text \<open>The roundings met on the way from x = 9218557407.293922 to its pixel and back.\<close>

lemma wide_fl1: "fl (1208294756488829 / 131072) = Some (1208294756488829 / 131072)"
  using fl_evalI [of "1208294756488829 / 131072" 19 "4833179025955316"] by simp

lemma wide_fl2: "fl (1208294756488829 / 1310720000000000) = Some (8303338340876487 / 9007199254740992)"
  using fl_evalI [of "1208294756488829 / 1310720000000000" 53 "8303338340876487"] by simp

lemma wide_fl3: "fl (8303338340876487 / 17592186044416) = Some (8303338340876487 / 17592186044416)"
  using fl_evalI [of "8303338340876487 / 17592186044416" 44 "8303338340876487"] by simp

lemma wide_fl4: "fl (9429238247719111 / 17592186044416) = Some (1178654780964889 / 2199023255552)"
  using fl_evalI [of "9429238247719111 / 17592186044416" 43 "4714619123859556"] by simp

lemma wide_fl5: "fl (1037917292609561 / 2199023255552) = Some (1037917292609561 / 2199023255552)"
  using fl_evalI [of "1037917292609561 / 2199023255552" 44 "8303338340876488"] by simp

lemma wide_fl6: "fl (1037917292609561 / 1125899906842624) = Some (1037917292609561 / 1125899906842624)"
  using fl_evalI [of "1037917292609561 / 1125899906842624" 53 "8303338340876488"] by simp

lemma wide_fl7: "fl (10135911060640244140625 / 1099511627776) = Some (4833179025955317 / 524288)"
  using fl_evalI [of "10135911060640244140625 / 1099511627776" 19 "4833179025955317"] by simp

lemma wide_fl8: "fl (4833179025955317 / 524288) = Some (4833179025955317 / 524288)"
  using fl_evalI [of "4833179025955317 / 524288" 19 "4833179025955317"] by simp

lemmas wide_fls =
  wide_fl1 wide_fl2 wide_fl3 wide_fl4 wide_fl5 wide_fl6 wide_fl7 wide_fl8

text \<open>
  On an x axis from 0 to \<open>10 ^ 10\<close> the point with x = 9218557407.293922, which is
  \<open>1208294756488829 / 2 ^ 17\<close>, comes back as 9218557407.293924: the difference is
  \<open>1 / 2 ^ 19\<close>, more than \<open>10 ^ - 6\<close>.
\<close>

theorem roundtrip64_wide_axis_counterexample:
  "doubleAxis (xAxis wideSpec) \<and> doubleAxis (yAxis wideSpec)
   \<and> isDouble (1208294756488829 / 131072) \<and> withinAxes wideSpec \<lparr>X = 1208294756488829 / 131072, Y = 0\<rparr>
   \<and> roundTrip64 wideSpec \<lparr>X = 1208294756488829 / 131072, Y = 0\<rparr> = Some \<lparr>X = 4833179025955317 / 524288, Y = 0\<rparr>
   \<and> (1::real) / 10 ^ 6 < \<bar>4833179025955317 / 524288 - 1208294756488829 / 131072\<bar>"
  by (simp add: roundTrip64_def toPixel64_def toPixel64_x_def toPixel64_y_def toData64_def
      toData64_x_def toData64_y_def fl_div_def wideSpec_def doubleAxis_def isDouble_def
      withinAxes_def padding_left_def padding_top_def wide_fls)

subsection \<open>Clamp and snap\<close>

lemma clamp_coord_idem: "clamp_coord a (clamp_coord a v) = clamp_coord a v"
  by (simp add: clamp_coord_def)

lemma clamp_idem: "clamp s (clamp s p) = clamp s p"
  by (simp add: clamp_def clamp_coord_idem)

lemma snap_coord_Some: "sn \<noteq> 0 \<Longrightarrow> snap_coord sn d = Some (js_round (d / sn) * sn)"
  by (simp add: snap_coord_def js_div_def)

lemma snap_coord_None: "snap_coord 0 d = None"
  by (simp add: snap_coord_def js_div_def)

lemma js_round_mono: "a \<le> b \<Longrightarrow> js_round a \<le> js_round b"
  by (simp add: js_round_def floor_mono)

text \<open>Snapping is monotone, for a negative snap step as well.\<close>

lemma snap_mono:
  assumes "sn \<noteq> 0" and "a \<le> b"
  shows "js_round (a / sn) * sn \<le> js_round (b / sn) * sn"
proof (cases "0 < sn")
  case True
  then have "a / sn \<le> b / sn" using assms by (simp add: divide_right_mono)
  then show ?thesis using True js_round_mono by (simp add: mult_right_mono)
next
  case False
  then have neg: "sn < 0" using assms by simp
  then have "b / sn \<le> a / sn" using assms by (simp add: divide_right_mono_neg)
  then have "js_round (b / sn) \<le> js_round (a / sn)" by (rule js_round_mono)
  then show ?thesis using neg by (simp add: mult_right_mono_neg)
qed

lemma snap_commutes_coord:
  assumes lo: "onSnapGrid a (axis_min a)" and hi: "onSnapGrid a (axis_max a)"
  shows "snap_coord (snapOf a) (clamp_coord a v)
           = map_option (clamp_coord a) (snap_coord (snapOf a) v)"
proof -
  let ?sn = "snapOf a"
  let ?f = "\<lambda>d. js_round (d / ?sn) * ?sn"
  have nz: "?sn \<noteq> 0"
    using lo by (auto simp: onSnapGrid_def snap_coord_def js_div_def split: if_splits)
  have m: "mono ?f" using snap_mono [OF nz] by (simp add: mono_def)
  have flo: "?f (axis_min a) = axis_min a"
    using lo nz by (simp add: onSnapGrid_def snap_coord_Some)
  have fhi: "?f (axis_max a) = axis_max a"
    using hi nz by (simp add: onSnapGrid_def snap_coord_Some)
  have "?f (max (axis_min a) (min (axis_max a) v))
          = max (?f (axis_min a)) (min (?f (axis_max a)) (?f v))"
    by (simp only: max_of_mono [OF m] min_of_mono [OF m])
  then show ?thesis using nz flo fhi by (simp add: snap_coord_Some clamp_coord_def)
qed

lemma snap_clamp_commute:
  assumes "boundsOnSnapGrid s"
  shows "snap s (X (clamp s p)) (Y (clamp s p)) = map_option (clamp s) (snap s (X p) (Y p))"
  using assms snap_commutes_coord [of "xAxis s" "X p"] snap_commutes_coord [of "yAxis s" "Y p"]
  by (auto simp: boundsOnSnapGrid_def snap_def clamp_def split: bind_splits)

lemma exampleSpec_on_grid: "boundsOnSnapGrid exampleSpec"
  by (simp add: boundsOnSnapGrid_def onSnapGrid_def exampleSpec_def snapOf_def snap_coord_def
      js_div_def js_round_def)

text \<open>
  Claim C8, as amended.  Clamping is idempotent.  Snapping a clamped point gives the same
  point as clamping the snapped point when the minimum and the maximum of both axes lie on
  the snap grid of their axis; without that the two orders can differ.
\<close>

theorem clamp_idempotent_commutes_on_grid:
  "clamp s (clamp s p) = clamp s p
   \<and> (boundsOnSnapGrid s \<longrightarrow>
        snap s (X (clamp s p)) (Y (clamp s p)) = map_option (clamp s) (snap s (X p) (Y p)))"
  using clamp_idem snap_clamp_commute by blast

theorem clamp_idempotent_commutes_on_grid_witness:
  "clamp exampleSpec (clamp exampleSpec \<lparr>X = 53, Y = - 2\<rparr>) = \<lparr>X = 50, Y = 0\<rparr>
   \<and> boundsOnSnapGrid exampleSpec
   \<and> snap exampleSpec (X (clamp exampleSpec \<lparr>X = 53, Y = - 2\<rparr>))
         (Y (clamp exampleSpec \<lparr>X = 53, Y = - 2\<rparr>))
       = map_option (clamp exampleSpec) (snap exampleSpec 53 (- 2))"
  using clamp_idempotent_commutes_on_grid [of exampleSpec "\<lparr>X = 53, Y = - 2\<rparr>"]
    exampleSpec_on_grid
  by (simp add: clamp_def clamp_coord_def exampleSpec_def)

text \<open>
  With an x axis from 0 to 50 that snaps to multiples of 4, the point at x = 51 snaps to
  52 after clamping (50 is a tie and rounds up) but clamps to 50 after snapping.
\<close>

theorem clamp_snap_commute_counterexample:
  "snap snap4Spec (X (clamp snap4Spec \<lparr>X = 51, Y = 0\<rparr>)) (Y (clamp snap4Spec \<lparr>X = 51, Y = 0\<rparr>))
     = Some \<lparr>X = 52, Y = 0\<rparr>
   \<and> map_option (clamp snap4Spec) (snap snap4Spec 51 0) = Some \<lparr>X = 50, Y = 0\<rparr>"
  by (simp add: snap4Spec_def snap_def clamp_def clamp_coord_def snapOf_def snap_coord_def
      js_div_def js_round_def)

subsection \<open>Zero-crossing split\<close>

lemma crossesZero_divisor: "crossesZero p q \<Longrightarrow> Y p - Y q \<noteq> 0"
  by (auto simp: crossesZero_def)

lemma splitLoop_segsFrom:
  "current \<noteq> [] \<Longrightarrow>
   splitLoop prev rest current segments = Some (segments @ segsFrom prev rest current)"
proof (induction rest arbitrary: prev current segments)
  case Nil
  then show ?case by simp
next
  case (Cons cur rest)
  show ?case
  proof (cases "crossesZero prev cur")
    case True
    then have "js_div (Y prev) (Y prev - Y cur) = Some (Y prev / (Y prev - Y cur))"
      using crossesZero_divisor by (simp add: js_div_def)
    then show ?thesis using True Cons.IH [of "[crossPoint prev cur, cur]"]
      by (simp add: crossPoint_def Let_def)
  next
    case False
    then show ?thesis using Cons.IH [of "current @ [cur]"] by simp
  qed
qed

lemma splitByZero_segsFrom:
  "splitByZero (p0 # p1 # rest) = Some (segsFrom p0 (p1 # rest) [p0])"
  using splitLoop_segsFrom [of "[p0]" p0 "p1 # rest" "[]"] by (simp add: splitByZero_def)

lemma segsFrom_head: "\<exists>s ss. segsFrom prev rest current = (current @ s) # ss"
proof (induction rest arbitrary: prev current)
  case Nil
  then show ?case by simp
next
  case (Cons cur rest)
  show ?case
  proof (cases "crossesZero prev cur")
    case True
    then show ?thesis by simp
  next
    case False
    from Cons.IH [of cur "current @ [cur]"] obtain s ss
      where "segsFrom cur rest (current @ [cur]) = ((current @ [cur]) @ s) # ss" by blast
    then show ?thesis using False by simp
  qed
qed

lemma length_segsFrom: "length (segsFrom prev rest current) = 1 + countCrossings (prev # rest)"
  by (induction rest arbitrary: prev current) auto

lemma insertCrossings_Cons: "insertCrossings (p # ps) = p # tl (insertCrossings (p # ps))"
  by (cases ps) auto

lemma concat_tl_segsFrom:
  "current \<noteq> [] \<Longrightarrow>
   concat (map tl (segsFrom prev rest current)) = tl current @ tl (insertCrossings (prev # rest))"
proof (induction rest arbitrary: prev current)
  case Nil
  then show ?case by simp
next
  case (Cons cur rest)
  have c: "insertCrossings (cur # rest) = cur # tl (insertCrossings (cur # rest))"
    by (rule insertCrossings_Cons)
  show ?case
  proof (cases "crossesZero prev cur")
    case True
    have "concat (map tl (segsFrom cur rest [crossPoint prev cur, cur]))
            = [cur] @ tl (insertCrossings (cur # rest))"
      using Cons.IH [of "[crossPoint prev cur, cur]" cur] by simp
    then show ?thesis using True Cons.prems c by simp
  next
    case False
    have "concat (map tl (segsFrom cur rest (current @ [cur])))
            = tl (current @ [cur]) @ tl (insertCrossings (cur # rest))"
      using Cons.IH [of "current @ [cur]" cur] by simp
    then show ?thesis using False Cons.prems c by simp
  qed
qed

lemma join_segsFrom:
  "current \<noteq> [] \<Longrightarrow>
   joinSegments (segsFrom prev rest current) = current @ tl (insertCrossings (prev # rest))"
proof (induction rest arbitrary: prev current)
  case Nil
  then show ?case by (simp add: joinSegments_def)
next
  case (Cons cur rest)
  have c: "insertCrossings (cur # rest) = cur # tl (insertCrossings (cur # rest))"
    by (rule insertCrossings_Cons)
  show ?case
  proof (cases "crossesZero prev cur")
    case True
    have "concat (map tl (segsFrom cur rest [crossPoint prev cur, cur]))
            = [cur] @ tl (insertCrossings (cur # rest))"
      using concat_tl_segsFrom [of "[crossPoint prev cur, cur]" cur rest] by simp
    then show ?thesis using True c by (simp add: joinSegments_def)
  next
    case False
    then show ?thesis using Cons.IH [of "current @ [cur]" cur] c by simp
  qed
qed

lemma chained_segsFrom: "current \<noteq> [] \<Longrightarrow> chained (segsFrom prev rest current)"
proof (induction rest arbitrary: prev current)
  case Nil
  then show ?case by simp
next
  case (Cons cur rest)
  show ?case
  proof (cases "crossesZero prev cur")
    case True
    obtain s ss where h:
      "segsFrom cur rest [crossPoint prev cur, cur] = ([crossPoint prev cur, cur] @ s) # ss"
      using segsFrom_head by blast
    have "chained (segsFrom cur rest [crossPoint prev cur, cur])"
      using Cons.IH [of "[crossPoint prev cur, cur]"] by simp
    then show ?thesis using True h by (simp add: crossPoint_def)
  next
    case False
    then show ?thesis using Cons.IH [of "current @ [cur]"] by simp
  qed
qed

text \<open>
  The open segment has the sign of the last point seen; a crossing point, with its
  \<open>y = 0\<close>, fits a segment of either sign.
\<close>

lemma signs_segsFrom:
  assumes "Y prev \<ge> 0 \<longrightarrow> nonNegative current" and "Y prev < 0 \<longrightarrow> nonPositive current"
  shows "list_all (\<lambda>seg. nonNegative seg \<or> nonPositive seg) (segsFrom prev rest current)"
  using assms
proof (induction rest arbitrary: prev current)
  case Nil
  then show ?case by (cases "Y prev \<ge> 0") auto
next
  case (Cons cur rest)
  show ?case
  proof (cases "crossesZero prev cur")
    case True
    have closed: "nonNegative (current @ [crossPoint prev cur])
                  \<or> nonPositive (current @ [crossPoint prev cur])"
      using Cons.prems
      by (cases "Y prev \<ge> 0") (auto simp: nonNegative_def nonPositive_def crossPoint_def)
    have "list_all (\<lambda>seg. nonNegative seg \<or> nonPositive seg)
            (segsFrom cur rest [crossPoint prev cur, cur])"
      by (rule Cons.IH) (auto simp: nonNegative_def nonPositive_def crossPoint_def)
    then show ?thesis using True closed by simp
  next
    case False
    have "list_all (\<lambda>seg. nonNegative seg \<or> nonPositive seg)
            (segsFrom cur rest (current @ [cur]))"
      using Cons.prems False
      by (intro Cons.IH) (auto simp: nonNegative_def nonPositive_def crossesZero_def)
    then show ?thesis using False by simp
  qed
qed

text \<open>On a list sorted by x every crossing point lies between its two neighbours.\<close>

lemma crossPoint_between:
  assumes "crossesZero p q" and "X p \<le> X q"
  shows "X p \<le> X (crossPoint p q) \<and> X (crossPoint p q) \<le> X q"
proof -
  let ?t = "Y p / (Y p - Y q)"
  have "0 \<le> ?t \<and> ?t \<le> 1"
    using assms(1) by (auto simp: crossesZero_def field_simps)
  then have t0: "0 \<le> ?t" and t1: "?t \<le> 1" by simp_all
  have d: "0 \<le> X q - X p" using assms(2) by simp
  have lo: "0 \<le> ?t * (X q - X p)" using t0 d by (rule mult_nonneg_nonneg)
  have hi: "?t * (X q - X p) \<le> 1 * (X q - X p)" using t1 d by (rule mult_right_mono)
  show ?thesis using lo hi by (simp add: crossPoint_def)
qed

lemma sorted_insertCrossings:
  "sorted (map X pts) \<Longrightarrow> sorted (map X (insertCrossings pts))"
proof (induction pts rule: insertCrossings.induct)
  case (1 p q rest)
  have pq: "X p \<le> X q" using "1.prems" by simp
  have tl: "sorted (map X (q # rest))" using "1.prems" by simp
  have hd: "insertCrossings (q # rest) = q # tl (insertCrossings (q # rest))"
    by (rule insertCrossings_Cons)
  show ?case
  proof (cases "crossesZero p q")
    case True
    have ih: "sorted (map X (insertCrossings (q # rest)))" using "1.IH"(1) True tl by simp
    then have "sorted (map X (q # tl (insertCrossings (q # rest))))" using hd by simp
    then have "sorted (map X (crossPoint p q # q # tl (insertCrossings (q # rest))))"
      using crossPoint_between [OF True pq] by (simp del: sorted_wrt.simps add: sorted2)
    then have "sorted (map X (p # crossPoint p q # q # tl (insertCrossings (q # rest))))"
      using crossPoint_between [OF True pq] by (simp del: sorted_wrt.simps add: sorted2)
    then show ?thesis using True hd by simp
  next
    case False
    have ih: "sorted (map X (insertCrossings (q # rest)))" using "1.IH"(2) False tl by simp
    then have "sorted (map X (q # tl (insertCrossings (q # rest))))" using hd by simp
    then have "sorted (map X (p # q # tl (insertCrossings (q # rest))))"
      using pq by (simp del: sorted_wrt.simps add: sorted2)
    then show ?thesis using False hd by simp
  qed
qed simp_all

lemma splitByZero_segments:
  "\<exists>segs. splitByZero pts = Some segs
      \<and> list_all (\<lambda>seg. nonNegative seg \<or> nonPositive seg) segs
      \<and> joinSegments segs = insertCrossings pts
      \<and> length segs = 1 + countCrossings pts
      \<and> chained segs
      \<and> (sorted (map X pts) \<longrightarrow> sorted (map X (joinSegments segs)))"
proof (cases pts)
  case Nil
  then show ?thesis by (simp add: splitByZero_def joinSegments_def nonNegative_def)
next
  case outer: (Cons p0 ps)
  show ?thesis
  proof (cases ps)
    case Nil
    then show ?thesis using outer
      by (cases "Y p0 \<ge> 0")
        (auto simp add: splitByZero_def joinSegments_def nonNegative_def nonPositive_def)
  next
    case (Cons p1 rest)
    let ?segs = "segsFrom p0 (p1 # rest) [p0]"
    have 1: "splitByZero pts = Some ?segs"
      using Cons outer splitByZero_segsFrom by simp
    have 2: "list_all (\<lambda>seg. nonNegative seg \<or> nonPositive seg) ?segs"
      by (rule signs_segsFrom) (auto simp: nonNegative_def nonPositive_def)
    have 3: "joinSegments ?segs = insertCrossings pts"
      using join_segsFrom [of "[p0]" p0 "p1 # rest"] insertCrossings_Cons [of p0 "p1 # rest"]
        Cons outer by simp
    have 4: "length ?segs = 1 + countCrossings pts"
      using length_segsFrom [of p0 "p1 # rest" "[p0]"] Cons outer by simp
    have 5: "chained ?segs" by (rule chained_segsFrom) simp
    have 6: "sorted (map X pts) \<longrightarrow> sorted (map X (joinSegments ?segs))"
      using 3 sorted_insertCrossings [of pts] by simp
    from 1 2 3 4 5 6 show ?thesis by blast
  qed
qed

lemma splitByZero_example:
  "splitByZero [\<lparr>X = 0, Y = 10\<rparr>, \<lparr>X = 10, Y = - 10\<rparr>]
     = Some [[\<lparr>X = 0, Y = 10\<rparr>, \<lparr>X = 5, Y = 0\<rparr>], [\<lparr>X = 5, Y = 0\<rparr>, \<lparr>X = 10, Y = - 10\<rparr>]]"
  by (simp add: splitByZero_def crossesZero_def js_div_def Let_def)

text \<open>
  Claim C2.  For every point list (sorted by x or not) \<open>_splitByZero\<close> returns segments
  that are each entirely non-negative or entirely non-positive in y.  Laid end to end they
  are the input with the linearly interpolated crossing point, of \<open>y = 0\<close>, inserted
  between every adjacent pair of opposite sign (zero counting as non-negative); there is
  one more segment than there are such pairs, and each segment ends in the crossing point
  that the next one starts with.  When the input is sorted by x, so is the result.  The
  points (0,10), (10,-10) give exactly two segments that share (5,0).
\<close>

theorem splitByZero_inserts_crossings:
  "(\<exists>segs. splitByZero pts = Some segs
      \<and> list_all (\<lambda>seg. nonNegative seg \<or> nonPositive seg) segs
      \<and> joinSegments segs = insertCrossings pts
      \<and> length segs = 1 + countCrossings pts
      \<and> chained segs
      \<and> (sorted (map X pts) \<longrightarrow> sorted (map X (joinSegments segs))))
   \<and> splitByZero [\<lparr>X = 0, Y = 10\<rparr>, \<lparr>X = 10, Y = - 10\<rparr>]
       = Some [[\<lparr>X = 0, Y = 10\<rparr>, \<lparr>X = 5, Y = 0\<rparr>], [\<lparr>X = 5, Y = 0\<rparr>, \<lparr>X = 10, Y = - 10\<rparr>]]"
  using splitByZero_segments splitByZero_example by blast

theorem splitByZero_inserts_crossings_witness:
  "\<exists>segs. splitByZero [\<lparr>X = 0, Y = 4\<rparr>, \<lparr>X = 2, Y = - 4\<rparr>, \<lparr>X = 4, Y = - 2\<rparr>, \<lparr>X = 6, Y = 6\<rparr>]
            = Some segs
      \<and> list_all (\<lambda>seg. nonNegative seg \<or> nonPositive seg) segs
      \<and> joinSegments segs
          = [\<lparr>X = 0, Y = 4\<rparr>, \<lparr>X = 1, Y = 0\<rparr>, \<lparr>X = 2, Y = - 4\<rparr>, \<lparr>X = 4, Y = - 2\<rparr>,
             \<lparr>X = 9 / 2, Y = 0\<rparr>, \<lparr>X = 6, Y = 6\<rparr>]
      \<and> length segs = 3
      \<and> chained segs
      \<and> sorted (map X (joinSegments segs))"
  using splitByZero_inserts_crossings
    [of "[\<lparr>X = 0, Y = 4\<rparr>, \<lparr>X = 2, Y = - 4\<rparr>, \<lparr>X = 4, Y = - 2\<rparr>, \<lparr>X = 6, Y = 6\<rparr>]"]
  by (simp add: crossesZero_def crossPoint_def numeral_3_eq_3)

subsection \<open>Range extraction\<close>

lemma rangeLoop_mset:
  "\<exists>r. rangeLoop lo hi prev ps result = Some r
      \<and> mset r = mset result + mset (filter (inRange lo hi) ps)
                  + mset (boundaryPoints lo hi
                            ((case prev of None \<Rightarrow> [] | Some pv \<Rightarrow> [pv]) @ ps))"
proof (induction ps arbitrary: prev result)
  case Nil
  then show ?case by (cases prev) auto
next
  case (Cons p rest)
  let ?r1 = "if X p \<ge> lo \<and> X p \<le> hi then result @ [p] else result"
  show ?case
  proof (cases prev)
    case None
    from Cons.IH [of "Some p" ?r1] obtain r where
      "rangeLoop lo hi (Some p) rest ?r1 = Some r"
      "mset r = mset ?r1 + mset (filter (inRange lo hi) rest)
                + mset (boundaryPoints lo hi (p # rest))"
      by auto
    then show ?thesis using None by (auto simp: inRange_def)
  next
    case (Some pv)
    let ?r2 = "if X pv < lo \<and> X p > lo then interpolate pv p lo # ?r1 else ?r1"
    let ?r3 = "if X pv < hi \<and> X p > hi then ?r2 @ [interpolate pv p hi] else ?r2"
    have step: "rangeLoop lo hi prev (p # rest) result = rangeLoop lo hi (Some p) rest ?r3"
      using Some by (simp add: js_div_def interpolate_def Let_def)
    from Cons.IH [of "Some p" ?r3] obtain r where
      r: "rangeLoop lo hi (Some p) rest ?r3 = Some r"
      "mset r = mset ?r3 + mset (filter (inRange lo hi) rest)
                + mset (boundaryPoints lo hi (p # rest))"
      by auto
    have "mset ?r3 + mset (filter (inRange lo hi) rest) + mset (boundaryPoints lo hi (p # rest))
          = mset result + mset (filter (inRange lo hi) (p # rest))
            + mset (boundaryPoints lo hi (pv # p # rest))"
      by (simp add: inRange_def risesAcross_def)
    then show ?thesis using step r Some by simp
  qed
qed

lemma getPointsInRange_mset_sorted:
  "\<exists>r. getPointsInRange pts lo hi = Some r
      \<and> mset r = mset (filter (inRange lo hi) pts) + mset (boundaryPoints lo hi pts)
      \<and> sorted (map X r)"
proof -
  from rangeLoop_mset [of lo hi None pts "[]"] obtain r0 where
    "rangeLoop lo hi None pts [] = Some r0"
    "mset r0 = mset (filter (inRange lo hi) pts) + mset (boundaryPoints lo hi pts)"
    by auto
  then show ?thesis by (simp add: getPointsInRange_def sorted_sort_key)
qed

lemma getPointsInRange_example:
  "getPointsInRange [\<lparr>X = 0, Y = 0\<rparr>, \<lparr>X = 20, Y = 20\<rparr>] 5 15
     = Some [\<lparr>X = 5, Y = 5\<rparr>, \<lparr>X = 15, Y = 15\<rparr>]"
  by (simp add: getPointsInRange_def js_div_def)

text \<open>
  Claim C3, as amended.  For every authored point list, in any order, and every range,
  \<open>_getPointsInRange\<close> returns, sorted by x ascending, exactly the authored points with
  \<open>fromX \<le> x \<le> toX\<close> and, for every adjacent authored pair that rises across \<open>fromX\<close>
  or \<open>toX\<close> (the earlier point left of the boundary, the later one right of it), the
  linearly interpolated point at that boundary.  The points (0,0), (20,20) with the range
  from 5 to 15 give (5,5) and (15,15).
\<close>

theorem getPointsInRange_rising_pairs:
  "(\<exists>r. getPointsInRange pts lo hi = Some r
      \<and> mset r = mset (filter (inRange lo hi) pts) + mset (boundaryPoints lo hi pts)
      \<and> sorted (map X r))
   \<and> getPointsInRange [\<lparr>X = 0, Y = 0\<rparr>, \<lparr>X = 20, Y = 20\<rparr>] 5 15
       = Some [\<lparr>X = 5, Y = 5\<rparr>, \<lparr>X = 15, Y = 15\<rparr>]"
  using getPointsInRange_mset_sorted getPointsInRange_example by blast

theorem getPointsInRange_rising_pairs_witness:
  "\<exists>r. getPointsInRange [\<lparr>X = 0, Y = 0\<rparr>, \<lparr>X = 10, Y = 20\<rparr>, \<lparr>X = 4, Y = 8\<rparr>, \<lparr>X = 20, Y = 0\<rparr>] 5 15
          = Some r
      \<and> mset r = {#\<lparr>X = 5, Y = 10\<rparr>, \<lparr>X = 5, Y = 15 / 2\<rparr>, \<lparr>X = 15, Y = 5 / 2\<rparr>, \<lparr>X = 10, Y = 20\<rparr>#}
      \<and> sorted (map X r)"
  using getPointsInRange_rising_pairs
    [of "[\<lparr>X = 0, Y = 0\<rparr>, \<lparr>X = 10, Y = 20\<rparr>, \<lparr>X = 4, Y = 8\<rparr>, \<lparr>X = 20, Y = 0\<rparr>]" 5 15]
  by (simp add: inRange_def risesAcross_def interpolate_def)

text \<open>
  The pair (20,20), (0,0) straddles both 5 and 15, but it falls across them: nothing is
  interpolated and the extraction is empty.
\<close>

theorem getPointsInRange_falling_pair_counterexample:
  "straddles 5 \<lparr>X = 20, Y = 20\<rparr> \<lparr>X = 0, Y = 0\<rparr>
   \<and> straddles 15 \<lparr>X = 20, Y = 20\<rparr> \<lparr>X = 0, Y = 0\<rparr>
   \<and> getPointsInRange [\<lparr>X = 20, Y = 20\<rparr>, \<lparr>X = 0, Y = 0\<rparr>] 5 15 = Some []"
  by (simp add: getPointsInRange_def js_div_def straddles_def)

subsection \<open>Divisors of the interpolation\<close>





subsection \<open>Tick loops\<close>

text \<open>A loop that is entered with an increment that is not positive never ends.\<close>

lemma tickLoop_diverges_aux:
  assumes "tickLoop body v hi inc acc = Some r"
  shows "inc \<le> 0 \<longrightarrow> \<not> v \<le> hi"
  using assms
proof (rule tickLoop.raw_induct [where P = "\<lambda>b v h i a r. i \<le> 0 \<longrightarrow> \<not> v \<le> h", rotated])
  fix f :: "(real \<Rightarrow> 'a) \<Rightarrow> real \<Rightarrow> real \<Rightarrow> real \<Rightarrow> 'a list \<Rightarrow> 'a list option"
  fix b v' h i a r'
  assume IH: "\<And>b v h i a r. f b v h i a = Some r \<Longrightarrow> i \<le> 0 \<longrightarrow> \<not> v \<le> h"
    and eq: "(if v' \<le> h then f b (v' + i) h i (a @ [b v']) else Some a) = Some r'"
  show "i \<le> 0 \<longrightarrow> \<not> v' \<le> h"
  proof (intro impI notI)
    assume neg: "i \<le> 0" and le: "v' \<le> h"
    from le eq have "f b (v' + i) h i (a @ [b v']) = Some r'" by simp
    then have "i \<le> 0 \<longrightarrow> \<not> v' + i \<le> h" by (rule IH)
    then show False using neg le by simp
  qed
qed

lemma tickLoop_diverges: "inc \<le> 0 \<Longrightarrow> v \<le> hi \<Longrightarrow> tickLoop body v hi inc acc = None"
  using tickLoop_diverges_aux [of body v hi inc acc] by (cases "tickLoop body v hi inc acc") auto

lemma tickCount_step:
  assumes "0 < inc" "v \<le> hi"
  shows "tickCount v hi inc = Suc (tickCount (v + inc) hi inc)"
proof (cases "v + inc \<le> hi")
  case True
  have "(hi - v) / inc = (hi - (v + inc)) / inc + 1" using assms by (simp add: field_simps)
  then have "\<lfloor>(hi - v) / inc\<rfloor> = \<lfloor>(hi - (v + inc)) / inc\<rfloor> + 1" by simp
  moreover have "0 \<le> \<lfloor>(hi - (v + inc)) / inc\<rfloor>" using True assms by simp
  ultimately show ?thesis using True assms by (simp add: tickCount_def nat_add_distrib)
next
  case False
  then have "(hi - v) / inc < 1" using assms by (simp add: field_simps)
  moreover have "0 \<le> (hi - v) / inc" using assms by simp
  ultimately have "\<lfloor>(hi - v) / inc\<rfloor> = 0" by (simp add: floor_eq_iff)
  then show ?thesis using False assms by (simp add: tickCount_def)
qed

lemma ticks_step:
  assumes "0 < inc" "v \<le> hi"
  shows "ticks v hi inc = v # ticks (v + inc) hi inc"
proof -
  have "map (\<lambda>i. v + real i * inc) [0..<Suc n] = v # map (\<lambda>i. v + inc + real i * inc) [0..<n]" for n
    by (simp add: upt_conv_Cons map_Suc_upt [symmetric] algebra_simps del: upt_Suc)
  then show ?thesis using tickCount_step [OF assms] by (simp add: ticks_def)
qed

lemma ticks_Nil: "\<not> v \<le> hi \<Longrightarrow> ticks v hi inc = []"
  by (simp add: ticks_def tickCount_def)

lemma tickLoop_ticks:
  assumes "0 < inc"
  shows "tickLoop body v hi inc acc = Some (acc @ map body (ticks v hi inc))"
proof (induction n \<equiv> "tickCount v hi inc" arbitrary: v acc)
  case 0
  then have "\<not> v \<le> hi" by (simp add: tickCount_def split: if_splits)
  then show ?case by (simp add: tickLoop.simps ticks_Nil)
next
  case (Suc n)
  then have le: "v \<le> hi" by (simp add: tickCount_def split: if_splits)
  then have "n = tickCount (v + inc) hi inc" using Suc(2) tickCount_step [OF assms le] by simp
  then have "tickLoop body (v + inc) hi inc (acc @ [body v])
               = Some ((acc @ [body v]) @ map body (ticks (v + inc) hi inc))"
    by (rule Suc(1))
  then show ?case using le ticks_step [OF assms le] by (subst tickLoop.simps) simp
qed

lemma tickLoop_skipped: "hi < v \<Longrightarrow> tickLoop body v hi inc acc = Some acc"
  by (simp add: tickLoop.simps)

subsection \<open>Gridlines\<close>






































subsection \<open>Construction\<close>

lemma tickLoop_returns_iff: "(tickLoop body v hi inc acc \<noteq> None) = (hi < v \<or> 0 < inc)"
proof (cases "hi < v \<or> 0 < inc")
  case True
  then show ?thesis using tickLoop_ticks [of inc body v hi acc] tickLoop_skipped [of hi v body inc acc]
    by auto
next
  case False
  then show ?thesis using tickLoop_diverges [of inc v hi body acc] by simp
qed

lemma renderGridlines_returns_iff:
  "(renderGridlines s \<noteq> None) =
     ((axis_max (xAxis s) < axis_min (xAxis s) \<or> 0 < snapOf (xAxis s))
      \<and> (axis_max (yAxis s) < axis_min (yAxis s) \<or> 0 < snapOf (yAxis s)))"
proof (cases "axis_max (xAxis s) < axis_min (xAxis s) \<or> 0 < snapOf (xAxis s)")
  case True
  let ?bx = "\<lambda>x. \<lparr>vertical = True, tick = x, pixel = toPixel_x s x, isMain = isMainTick (xAxis s) x\<rparr>"
  from True obtain gx where
    gx: "tickLoop ?bx (axis_min (xAxis s)) (axis_max (xAxis s)) (snapOf (xAxis s)) [] = Some gx"
    using tickLoop_returns_iff [of ?bx "axis_min (xAxis s)" "axis_max (xAxis s)" "snapOf (xAxis s)" "[]"]
    by auto
  have "(tickLoop (\<lambda>y. \<lparr>vertical = False, tick = y, pixel = toPixel_y s y,
                          isMain = isMainTick (yAxis s) y\<rparr>)
           (axis_min (yAxis s)) (axis_max (yAxis s)) (snapOf (yAxis s)) gx \<noteq> None)
        = (axis_max (yAxis s) < axis_min (yAxis s) \<or> 0 < snapOf (yAxis s))"
    by (rule tickLoop_returns_iff)
  then show ?thesis using True by (simp add: renderGridlines_def gx)
next
  case False
  then show ?thesis
    by (simp add: renderGridlines_def tickLoop_diverges)
qed

lemma renderAxes_returns_iff:
  "(renderAxes s \<noteq> None) =
     ((axis_max (xAxis s) < axis_min (xAxis s) \<or> 0 < step (xAxis s))
      \<and> (axis_max (yAxis s) < axis_min (yAxis s) \<or> 0 < step (yAxis s)))"
proof (cases "axis_max (xAxis s) < axis_min (xAxis s) \<or> 0 < step (xAxis s)")
  case True
  from True obtain tx where
    tx: "tickLoop (\<lambda>x. (x, toPixel_x s x)) (axis_min (xAxis s)) (axis_max (xAxis s)) (step (xAxis s)) [] = Some tx"
    using tickLoop_returns_iff [of "\<lambda>x. (x, toPixel_x s x)" "axis_min (xAxis s)" "axis_max (xAxis s)" "step (xAxis s)" "[]"]
    by auto
  show ?thesis
  proof (cases "axis_max (yAxis s) < axis_min (yAxis s) \<or> 0 < step (yAxis s)")
    case y: True
    from y obtain ty where
      ty: "tickLoop (\<lambda>y. (y, toPixel_y s y)) (axis_min (yAxis s)) (axis_max (yAxis s)) (step (yAxis s)) [] = Some ty"
      using tickLoop_returns_iff [of "\<lambda>y. (y, toPixel_y s y)" "axis_min (yAxis s)" "axis_max (yAxis s)" "step (yAxis s)" "[]"]
      by auto
    show ?thesis using True y by (simp add: renderAxes_def tx ty)
  next
    case y: False
    then show ?thesis using True by (simp add: renderAxes_def tx tickLoop_diverges)
  qed
next
  case False
  then show ?thesis by (simp add: renderAxes_def tickLoop_diverges)
qed

lemma render_returns_iff:
  "(render g \<noteq> None) = (loopsEnd (xAxis (spec g)) \<and> loopsEnd (yAxis (spec g)))"
proof (cases "renderGridlines (spec g)")
  case None
  then show ?thesis using renderGridlines_returns_iff [of "spec g"]
    by (auto simp: render_def loopsEnd_def)
next
  case grid: (Some grid)
  show ?thesis
  proof (cases "renderAxes (spec g)")
    case None
    then show ?thesis using renderAxes_returns_iff [of "spec g"] grid
      by (auto simp: render_def loopsEnd_def)
  next
    case (Some axes)
    then show ?thesis using renderAxes_returns_iff [of "spec g"]
        renderGridlines_returns_iff [of "spec g"] grid
      by (auto simp: render_def loopsEnd_def)
  qed
qed

lemma constructor_returns_iff:
  "constructor s opts =
     (if loopsEnd (xAxis s) \<and> loopsEnd (yAxis s)
      then Some \<lparr>spec = s, placedPoints = [], crosshairPos = None,
                 mode = (case interactiveMode s of
                           Some m \<Rightarrow> m
                         | None \<Rightarrow> (case opt_mode opts of Some m \<Rightarrow> m | None \<Rightarrow> View)),
                 onPointsChange = opt_onPointsChange opts,
                 onValueRead = opt_onValueRead opts,
                 emitted = []\<rparr>
      else None)"
proof -
  let ?g = "\<lparr>spec = s, placedPoints = [], crosshairPos = None,
                 mode = (case interactiveMode s of
                           Some m \<Rightarrow> m
                         | None \<Rightarrow> (case opt_mode opts of Some m \<Rightarrow> m | None \<Rightarrow> View)),
                 onPointsChange = opt_onPointsChange opts,
                 onValueRead = opt_onValueRead opts,
                 emitted = []\<rparr>"
  have "(render ?g \<noteq> None) = (loopsEnd (xAxis s) \<and> loopsEnd (yAxis s))"
    using render_returns_iff [of ?g] by simp
  then show ?thesis by (cases "render ?g") (auto simp: constructor_def Let_def)
qed

text \<open>
  Claim C10, as amended.  The constructor validates nothing.  It returns an instance,
  holding the spec as given, exactly when on each axis \<open>max < min\<close> or both the step and
  the snap step in force are positive; otherwise the first render runs a tick loop that
  never ends, and the constructor does not return.
\<close>

theorem constructor_validates_nothing:
  "constructor s opts =
     (if loopsEnd (xAxis s) \<and> loopsEnd (yAxis s)
      then Some \<lparr>spec = s, placedPoints = [], crosshairPos = None,
                 mode = (case interactiveMode s of
                           Some m \<Rightarrow> m
                         | None \<Rightarrow> (case opt_mode opts of Some m \<Rightarrow> m | None \<Rightarrow> View)),
                 onPointsChange = opt_onPointsChange opts,
                 onValueRead = opt_onValueRead opts,
                 emitted = []\<rparr>
      else None)"
  by (rule constructor_returns_iff)

theorem constructor_validates_nothing_witness:
  "constructor exampleSpec \<lparr>opt_mode = None, opt_onPointsChange = True, opt_onValueRead = False\<rparr>
     = Some \<lparr>spec = exampleSpec, placedPoints = [], crosshairPos = None, mode = PlotPoints,
             onPointsChange = True, onValueRead = False, emitted = []\<rparr>
   \<and> constructor (exampleSpec\<lparr>xAxis := (xAxis exampleSpec)\<lparr>step := 0\<rparr>\<rparr>)
         \<lparr>opt_mode = None, opt_onPointsChange = True, opt_onValueRead = False\<rparr>
     = None"
  using constructor_validates_nothing
    [of exampleSpec "\<lparr>opt_mode = None, opt_onPointsChange = True, opt_onValueRead = False\<rparr>"]
    constructor_validates_nothing
    [of "exampleSpec\<lparr>xAxis := (xAxis exampleSpec)\<lparr>step := 0\<rparr>\<rparr>"
        "\<lparr>opt_mode = None, opt_onPointsChange = True, opt_onValueRead = False\<rparr>"]
  by (simp add: loopsEnd_def exampleSpec_def snapOf_def)

text \<open>
  A spec whose x axis has \<open>max < min\<close> and whose y axis has \<open>max = min\<close> and a snap
  step of 0 is accepted.
\<close>

theorem constructor_accepts_reversed_axis_counterexample:
  "constructor reversedSpec
     \<lparr>opt_mode = Some PlotPoints, opt_onPointsChange = True, opt_onValueRead = True\<rparr>
   = Some \<lparr>spec = reversedSpec, placedPoints = [], crosshairPos = None, mode = PlotPoints,
           onPointsChange = True, onValueRead = True, emitted = []\<rparr>"
  by (simp add: constructor_returns_iff loopsEnd_def reversedSpec_def snapOf_def)

subsection \<open>Toggling a placed point\<close>

lemmas eval_defs = session_def constructor_returns_iff loopsEnd_def observed_def snapOf_def
  showCrosshair_def hideCrosshair_def overlay_click_def overlay_touchend_def removePoint_def
  notifyPoints_def toData_def snap_def snap_coord_def js_div_def js_round_def clamp_def
  clamp_coord_def padding_left_def padding_top_def Let_def setPlacedPoints_def

lemma find_exact_None:
  "list_all (\<lambda>p. \<not> near c p) ps \<Longrightarrow> find (\<lambda>p. X p = X c \<and> Y p = Y c) ps = None"
  by (induction ps) (auto simp: near_def)

lemma filter_not_near:
  "list_all (\<lambda>p. \<not> near c p) ps \<Longrightarrow> filter (\<lambda>p. \<not> near c p) ps = ps"
  by (induction ps) auto

lemma near_self: "near c c"
  by (simp add: near_def)

lemma placedPoints_removePoint:
  "placedPoints (removePoint g pt) = filter (\<lambda>p. \<not> near pt p) (placedPoints g)"
  by (simp add: removePoint_def near_def notifyPoints_def)

lemma find_exact_appended:
  "list_all (\<lambda>p. \<not> near c p) ps \<Longrightarrow> find (\<lambda>p. X p = X c \<and> Y p = Y c) (ps @ [c]) = Some c"
  by (induction ps) (auto simp: near_def)

lemma placedPoints_notifyPoints [simp]: "placedPoints (notifyPoints g) = placedPoints g"
  by (simp add: notifyPoints_def)

lemma crosshairPos_notifyPoints [simp]: "crosshairPos (notifyPoints g) = crosshairPos g"
  by (simp add: notifyPoints_def)

lemma mode_notifyPoints [simp]: "mode (notifyPoints g) = mode g"
  by (simp add: notifyPoints_def)

lemma spec_notifyPoints [simp]: "spec (notifyPoints g) = spec g"
  by (simp add: notifyPoints_def)

lemma click_appends:
  assumes "mode g = PlotPoints" and "crosshairPos g = Some c"
    and "list_all (\<lambda>p. \<not> near c p) (placedPoints g)"
  shows "overlay_click g = notifyPoints (g\<lparr>placedPoints := placedPoints g @ [c]\<rparr>)"
  using assms by (simp add: overlay_click_def find_exact_None)

lemma click_twice:
  assumes "mode g = PlotPoints" and "crosshairPos g = Some c"
    and "list_all (\<lambda>p. \<not> near c p) (placedPoints g)"
  shows "placedPoints (overlay_click (overlay_click g)) = placedPoints g"
proof -
  let ?g1 = "notifyPoints (g\<lparr>placedPoints := placedPoints g @ [c]\<rparr>)"
  have 1: "overlay_click g = ?g1" using assms by (rule click_appends)
  have "overlay_click ?g1 = removePoint ?g1 c"
    using assms by (simp add: overlay_click_def find_exact_appended)
  then show ?thesis using 1 assms(3)
    by (simp add: placedPoints_removePoint filter_not_near near_self)
qed

text \<open>
  Claim C4, as amended.  In plot mode, when no stored point lies within 0.01 of the
  crosshair position on both coordinates, a click appends that position and a second
  click at the same position returns the store to its prior contents.  Removal takes out
  every stored point within 0.01 of the removed one on both coordinates.
\<close>

theorem toggle_restores_store:
  assumes "mode g = PlotPoints" and "crosshairPos g = Some c"
    and "list_all (\<lambda>p. \<not> near c p) (placedPoints g)"
  shows "placedPoints (overlay_click g) = placedPoints g @ [c]
       \<and> placedPoints (overlay_click (overlay_click g)) = placedPoints g
       \<and> placedPoints (removePoint g pt) = filter (\<lambda>p. \<not> near pt p) (placedPoints g)"
  using click_appends [OF assms] click_twice [OF assms]
  by (simp add: placedPoints_removePoint)

theorem toggle_restores_store_witness:
  "mode (stateOf exampleSpec PlotPoints [\<lparr>X = 10, Y = 10\<rparr>] (Some \<lparr>X = 5, Y = 5\<rparr>)) = PlotPoints
   \<and> list_all (\<lambda>p. \<not> near \<lparr>X = 5, Y = 5\<rparr> p) [\<lparr>X = 10, Y = 10\<rparr>]
   \<and> placedPoints
        (overlay_click (stateOf exampleSpec PlotPoints [\<lparr>X = 10, Y = 10\<rparr>] (Some \<lparr>X = 5, Y = 5\<rparr>)))
       = [\<lparr>X = 10, Y = 10\<rparr>, \<lparr>X = 5, Y = 5\<rparr>]
   \<and> placedPoints
        (overlay_click
          (overlay_click
            (stateOf exampleSpec PlotPoints [\<lparr>X = 10, Y = 10\<rparr>] (Some \<lparr>X = 5, Y = 5\<rparr>))))
       = [\<lparr>X = 10, Y = 10\<rparr>]"
  using toggle_restores_store
    [of "stateOf exampleSpec PlotPoints [\<lparr>X = 10, Y = 10\<rparr>] (Some \<lparr>X = 5, Y = 5\<rparr>)"
        "\<lparr>X = 5, Y = 5\<rparr>"]
  by (simp add: stateOf_def near_def)

text \<open>
  On \<open>fineSpec\<close> the pointer places (5.005, 5), then places (5, 5), then clicks (5, 5)
  again: the last click empties the store instead of leaving (5.005, 5) in it.
\<close>

theorem toggle_removes_near_point_counterexample:
  "map_option placedPoints
     (session fineSpec observed [MouseMove (11525 / 100) (29066 / 100), Click])
     = Some [\<lparr>X = 1001 / 200, Y = 5\<rparr>]
   \<and> map_option placedPoints
       (session fineSpec observed
          [MouseMove (11525 / 100) (29066 / 100), Click,
           MouseMove (1152 / 10) (29066 / 100), Click])
     = Some [\<lparr>X = 1001 / 200, Y = 5\<rparr>, \<lparr>X = 5, Y = 5\<rparr>]
   \<and> map_option placedPoints
       (session fineSpec observed
          [MouseMove (11525 / 100) (29066 / 100), Click,
           MouseMove (1152 / 10) (29066 / 100), Click, Click])
     = Some []"
  by (simp add: eval_defs fineSpec_def)

subsection \<open>Touch release and click\<close>







subsection \<open>The store invariant\<close>

lemma isPlacedPointI: "snap s dataX dataY = Some q \<Longrightarrow> isPlacedPoint s (clamp s q)"
  by (auto simp: isPlacedPoint_def)

lemma showCrosshair_inv:
  "storeInv s g \<Longrightarrow> showCrosshair g sx sy = Some g' \<Longrightarrow> storeInv s g'"
  by (auto simp: showCrosshair_def storeInv_def Let_def isPlacedPointI split: bind_splits)

lemma notifyPoints_inv: "storeInv s g \<Longrightarrow> storeInv s (notifyPoints g)"
  by (simp add: storeInv_def notifyPoints_def)

lemma removePoint_inv: "storeInv s g \<Longrightarrow> storeInv s (removePoint g pt)"
  unfolding removePoint_def
  by (rule notifyPoints_inv) (auto simp: storeInv_def list_all_iff)

lemma push_inv:
  "storeInv s g \<Longrightarrow> crosshairPos g = Some c \<Longrightarrow>
   storeInv s (notifyPoints (g\<lparr>placedPoints := placedPoints g @ [c]\<rparr>))"
  by (rule notifyPoints_inv) (auto simp: storeInv_def)

lemma hideCrosshair_inv: "storeInv s g \<Longrightarrow> storeInv s (hideCrosshair g)"
  by (simp add: storeInv_def hideCrosshair_def)

lemma emit_inv: "storeInv s g \<Longrightarrow> storeInv s (g\<lparr>emitted := es\<rparr>)"
  by (simp add: storeInv_def)

lemma click_inv: "storeInv s g \<Longrightarrow> storeInv s (overlay_click g)"
  by (auto simp: overlay_click_def removePoint_inv push_inv emit_inv split: option.splits)

lemma touchend_inv: "storeInv s g \<Longrightarrow> storeInv s (overlay_touchend g)"
  unfolding overlay_touchend_def
  by (rule hideCrosshair_inv) (auto simp: push_inv emit_inv split: option.splits)

lemma undo_inv: "storeInv s g \<Longrightarrow> storeInv s (undo g)"
  unfolding undo_def
  by (auto intro!: notifyPoints_inv simp: storeInv_def list_all_iff dest: in_set_butlastD)

lemma clear_inv: "storeInv s g \<Longrightarrow> storeInv s (clearPlacedPoints g)"
  unfolding clearPlacedPoints_def by (rule notifyPoints_inv) (simp add: storeInv_def)

lemma setPlaced_inv:
  "storeInv s g \<Longrightarrow> list_all (isPlacedPoint s) pts \<Longrightarrow> storeInv s (setPlacedPoints g pts)"
  by (simp add: storeInv_def setPlacedPoints_def)

lemma setMode_inv: "storeInv s g \<Longrightarrow> setMode g m = Some g' \<Longrightarrow> storeInv s g'"
  by (auto simp: setMode_def storeInv_def Let_def split: bind_splits)

lemma handle_inv:
  assumes "storeInv s g" and "handle g i = Some g'"
    and "case i of SetPlacedPoints pts \<Rightarrow> list_all (isPlacedPoint s) pts | _ \<Rightarrow> True"
  shows "storeInv s g'"
proof (cases i)
  case (MouseMove sx sy)
  then show ?thesis using assms showCrosshair_inv by (auto split: if_splits)
next
  case MouseLeave
  then show ?thesis using assms hideCrosshair_inv by auto
next
  case Click
  then show ?thesis using assms click_inv by auto
next
  case (TouchMove sx sy)
  then show ?thesis using assms showCrosshair_inv by (auto split: if_splits)
next
  case TouchEnd
  then show ?thesis using assms touchend_inv by auto
next
  case (PointClick n)
  then show ?thesis using assms removePoint_inv by auto
next
  case Undo
  then show ?thesis using assms undo_inv by auto
next
  case (SetPlacedPoints pts)
  then show ?thesis using assms setPlaced_inv by auto
next
  case ClearPlacedPoints
  then show ?thesis using assms clear_inv by auto
next
  case (SetMode m)
  then show ?thesis using assms setMode_inv by auto
qed

lemma run_inv:
  "storeInv s g \<Longrightarrow> run g ins = Some g' \<Longrightarrow> restoresPlaced s ins \<Longrightarrow> storeInv s g'"
proof (induction ins arbitrary: g)
  case Nil
  then show ?case by simp
next
  case (Cons i ins)
  from Cons.prems(2) obtain g1 where h: "handle g i = Some g1" and r: "run g1 ins = Some g'"
    by (auto split: option.splits)
  have "storeInv s g1" using Cons.prems(1) h Cons.prems(3)
    by (intro handle_inv [of s g i g1]) (simp_all add: restoresPlaced_def)
  then show ?case using r Cons.prems(3) Cons.IH [of g1] by (simp add: restoresPlaced_def)
qed

lemma constructor_inv: "constructor s opts = Some g \<Longrightarrow> storeInv s g"
  by (auto simp: constructor_returns_iff storeInv_def split: if_splits)

lemma clamp_coord_within:
  "axis_min a \<le> axis_max a \<Longrightarrow> axis_min a \<le> clamp_coord a v \<and> clamp_coord a v \<le> axis_max a"
  by (simp add: clamp_coord_def)

lemma isPlacedPoint_within:
  assumes "axis_min (xAxis s) \<le> axis_max (xAxis s)"
    and "axis_min (yAxis s) \<le> axis_max (yAxis s)"
    and "isPlacedPoint s p"
  shows "withinAxes s p"
  using assms clamp_coord_within by (auto simp: isPlacedPoint_def withinAxes_def clamp_def)

lemma session_inv:
  assumes "session s opts ins = Some g" and "restoresPlaced s ins"
  shows "storeInv s g"
proof -
  from assms(1) obtain g0 where "constructor s opts = Some g0" and "run g0 ins = Some g"
    by (auto simp: session_def split: option.splits)
  then show ?thesis using constructor_inv run_inv assms(2) by blast
qed

text \<open>
  Snapping moves a value by at most half a snap step, so some input snaps to or below
  the minimum and some to or above the maximum.
\<close>

lemma js_round_near: "\<bar>js_round r - r\<bar> \<le> 1 / 2"
proof -
  have "of_int \<lfloor>r + 1 / 2\<rfloor> \<le> r + 1 / 2" by (rule of_int_floor_le)
  moreover have "r + 1 / 2 < of_int \<lfloor>r + 1 / 2\<rfloor> + 1"
    by (rule floor_correct [THEN conjunct2, simplified])
  ultimately show ?thesis unfolding js_round_def by linarith
qed

lemma snap_near:
  assumes "sn \<noteq> 0"
  shows "\<bar>js_round (d / sn) * sn - d\<bar> \<le> \<bar>sn\<bar> / 2"
proof -
  have "js_round (d / sn) * sn - d = (js_round (d / sn) - d / sn) * sn"
    using assms by (simp add: algebra_simps)
  then have "\<bar>js_round (d / sn) * sn - d\<bar> = \<bar>js_round (d / sn) - d / sn\<bar> * \<bar>sn\<bar>"
    by (simp add: abs_mult)
  also have "\<dots> \<le> (1 / 2) * \<bar>sn\<bar>"
    by (rule mult_right_mono [OF js_round_near]) simp
  finally show ?thesis by simp
qed

lemma coord_image:
  assumes nz: "snapOf a \<noteq> 0"
  shows "(\<exists>d. v = clamp_coord a (js_round (d / snapOf a) * snapOf a)) = placedCoord a v"
proof (cases "axis_max a < axis_min a")
  case True
  then show ?thesis by (auto simp: placedCoord_def clamp_coord_def)
next
  case False
  let ?sn = "snapOf a"
  let ?f = "\<lambda>d. js_round (d / ?sn) * ?sn"
  show ?thesis
  proof
    assume "\<exists>d. v = clamp_coord a (?f d)"
    then obtain d where v: "v = clamp_coord a (?f d)" by blast
    show "placedCoord a v"
    proof (cases "?f d \<le> axis_min a \<or> axis_max a \<le> ?f d")
      case True
      then show ?thesis using v False by (auto simp: placedCoord_def clamp_coord_def)
    next
      case inside: False
      then have "v = ?f d" using v by (simp add: clamp_coord_def)
      moreover have "?f (?f d) = ?f d" using nz by (simp add: js_round_def)
      ultimately show ?thesis using inside False nz
        by (simp add: placedCoord_def onSnapGrid_def snap_coord_Some)
    qed
  next
    assume p: "placedCoord a v"
    then consider "v = axis_min a" | "v = axis_max a"
      | "axis_min a \<le> v \<and> v \<le> axis_max a \<and> onSnapGrid a v"
      using False by (auto simp: placedCoord_def)
    then show "\<exists>d. v = clamp_coord a (?f d)"
    proof cases
      case 1
      have "?f (axis_min a - \<bar>?sn\<bar>) \<le> axis_min a"
        using snap_near [OF nz, of "axis_min a - \<bar>?sn\<bar>"] by linarith
      then have "clamp_coord a (?f (axis_min a - \<bar>?sn\<bar>)) = axis_min a"
        using False by (simp add: clamp_coord_def)
      then show ?thesis using 1 by metis
    next
      case 2
      have "axis_max a \<le> ?f (axis_max a + \<bar>?sn\<bar>)"
        using snap_near [OF nz, of "axis_max a + \<bar>?sn\<bar>"] by linarith
      then have "clamp_coord a (?f (axis_max a + \<bar>?sn\<bar>)) = axis_max a"
        using False by (simp add: clamp_coord_def)
      then show ?thesis using 2 by metis
    next
      case 3
      then have "?f v = v" using nz by (simp add: onSnapGrid_def snap_coord_Some)
      then have "clamp_coord a (?f v) = v" using 3 by (simp add: clamp_coord_def)
      then show ?thesis by metis
    qed
  qed
qed

lemma isPlacedPoint_code [code]:
  "isPlacedPoint s p =
     (snapOf (xAxis s) \<noteq> 0 \<and> snapOf (yAxis s) \<noteq> 0
      \<and> placedCoord (xAxis s) (X p) \<and> placedCoord (yAxis s) (Y p))"
proof (cases "snapOf (xAxis s) \<noteq> 0 \<and> snapOf (yAxis s) \<noteq> 0")
  case False
  then show ?thesis
    by (auto simp: isPlacedPoint_def snap_def snap_coord_def js_div_def split: bind_splits)
next
  case True
  then have sx: "snapOf (xAxis s) \<noteq> 0" and sy: "snapOf (yAxis s) \<noteq> 0" by simp_all
  have "isPlacedPoint s p
          = (\<exists>dataX dataY.
               p = clamp s \<lparr>X = js_round (dataX / snapOf (xAxis s)) * snapOf (xAxis s),
                            Y = js_round (dataY / snapOf (yAxis s)) * snapOf (yAxis s)\<rparr>)"
    using sx sy by (simp add: isPlacedPoint_def snap_def snap_coord_Some)
  also have "\<dots>
          = ((\<exists>dataX. X p = clamp_coord (xAxis s)
                                 (js_round (dataX / snapOf (xAxis s)) * snapOf (xAxis s)))
             \<and> (\<exists>dataY. Y p = clamp_coord (yAxis s)
                                   (js_round (dataY / snapOf (yAxis s)) * snapOf (yAxis s))))"
    by (cases p) (auto simp: clamp_def)
  also have "\<dots> = (placedCoord (xAxis s) (X p) \<and> placedCoord (yAxis s) (Y p))"
    by (simp only: coord_image [OF sx] coord_image [OF sy])
  finally show ?thesis using True by simp
qed

lemma not_placed_7_3: "\<not> isPlacedPoint exampleSpec \<lparr>X = 7, Y = 3\<rparr>"
  by (simp add: isPlacedPoint_code placedCoord_def onSnapGrid_def exampleSpec_def snapOf_def
      snap_coord_def js_div_def js_round_def)

lemma placed_10_10: "isPlacedPoint exampleSpec \<lparr>X = 10, Y = 10\<rparr>"
  by (simp add: isPlacedPoint_code placedCoord_def onSnapGrid_def exampleSpec_def snapOf_def
      snap_coord_def js_div_def js_round_def)

text \<open>
  Claim C5, as amended.  After construction and any sequence of pointer and touch events,
  clicks on placed points, undo, \<open>clearPlacedPoints\<close>, \<open>setMode\<close> and
  \<open>setPlacedPoints\<close> calls whose points are outputs of snap then clamp, every point in
  the store is an output of snap then clamp, and so lies within the range of each axis
  that has \<open>min \<le> max\<close>.  \<open>setPlacedPoints\<close> stores what it is given unchecked.
\<close>

theorem store_invariant_preserved:
  assumes "session s opts ins = Some g" and "restoresPlaced s ins"
  shows "list_all (isPlacedPoint s) (placedPoints g)
       \<and> (axis_min (xAxis s) \<le> axis_max (xAxis s) \<and> axis_min (yAxis s) \<le> axis_max (yAxis s)
            \<longrightarrow> list_all (withinAxes s) (placedPoints g))"
  using session_inv [OF assms] isPlacedPoint_within [of s]
  by (auto simp: storeInv_def list_all_iff)

theorem store_invariant_preserved_witness:
  "restoresPlaced exampleSpec
     [MouseMove (1152 / 10) (29066 / 100), Click, SetPlacedPoints [\<lparr>X = 10, Y = 10\<rparr>],
      TouchMove 700 (- 20), TouchEnd]
   \<and> map_option placedPoints
       (session exampleSpec observed
          [MouseMove (1152 / 10) (29066 / 100), Click, SetPlacedPoints [\<lparr>X = 10, Y = 10\<rparr>],
           TouchMove 700 (- 20), TouchEnd])
     = Some [\<lparr>X = 10, Y = 10\<rparr>, \<lparr>X = 50, Y = 30\<rparr>]
   \<and> list_all (isPlacedPoint exampleSpec) [\<lparr>X = 10, Y = 10\<rparr>, \<lparr>X = 50, Y = 30\<rparr>]
   \<and> list_all (withinAxes exampleSpec) [\<lparr>X = 10, Y = 10\<rparr>, \<lparr>X = 50, Y = 30\<rparr>]"
proof -
  let ?ins = "[MouseMove (1152 / 10) (29066 / 100), Click, SetPlacedPoints [\<lparr>X = 10, Y = 10\<rparr>],
      TouchMove 700 (- 20), TouchEnd]"
  let ?g = "\<lparr>spec = exampleSpec, placedPoints = [\<lparr>X = 10, Y = 10\<rparr>, \<lparr>X = 50, Y = 30\<rparr>],
      crosshairPos = None, mode = PlotPoints, onPointsChange = True, onValueRead = True,
      emitted = [PointsChange [\<lparr>X = 5, Y = 5\<rparr>],
                 PointsChange [\<lparr>X = 10, Y = 10\<rparr>, \<lparr>X = 50, Y = 30\<rparr>]]\<rparr>"
  have r: "restoresPlaced exampleSpec ?ins"
    using placed_10_10 by (simp add: restoresPlaced_def)
  have s: "session exampleSpec observed ?ins = Some ?g"
    by (simp add: eval_defs exampleSpec_def)
  have w: "axis_min (xAxis exampleSpec) \<le> axis_max (xAxis exampleSpec)
           \<and> axis_min (yAxis exampleSpec) \<le> axis_max (yAxis exampleSpec)"
    by (simp add: exampleSpec_def)
  from store_invariant_preserved [OF s r] w r s show ?thesis by simp
qed

text \<open>
  Restoring the point (7, 3) on the example graph, which snaps to multiples of 5: the
  store then holds a point that no snap and clamp produces.
\<close>

theorem setPlacedPoints_unchecked_counterexample:
  "map_option placedPoints (session exampleSpec observed [SetPlacedPoints [\<lparr>X = 7, Y = 3\<rparr>]])
     = Some [\<lparr>X = 7, Y = 3\<rparr>]
   \<and> \<not> isPlacedPoint exampleSpec \<lparr>X = 7, Y = 3\<rparr>"
  using not_placed_7_3 by (simp add: eval_defs exampleSpec_def)

end
